theory Spec2Isabelle
  imports Main "HOL-Library.Word"
begin

section \<open>Memory model\<close>

text \<open>
  The handle library of \<^verbatim>\<open>src/gc/cpp/Cpp_Ptr.hpp\<close> is embedded over an explicit store.
  Control blocks and handle objects live at addresses; a block that has been the target of
  \<^verbatim>\<open>delete this\<close> is absent from \<open>blocks\<close>, a handle object whose lifetime has ended is
  absent from \<open>handles\<close>. The two deletions of the source, \<^verbatim>\<open>delete p\<close> of the managed
  value and \<^verbatim>\<open>delete this\<close> of the control block, are recorded in the logs \<open>destroyed\<close>
  and \<open>freed\<close>, so that "exactly once" is a statement about \<open>count_list\<close>.

  The model is sequential: every atomic operation is the corresponding plain read or write,
  and memory orders have no counterpart. The managed type \<open>T\<close> is opaque: a value is its
  address and its destructor touches neither handles nor control blocks.
  \<open>size_t\<close> is taken as 64 bits wide; \<open>fetch_add\<close> and \<open>fetch_sub\<close> wrap around.

  The source's member names end in an underscore (\<^verbatim>\<open>ctrl_\<close>, \<^verbatim>\<open>is_weak_\<close>, ...), which
  is not available here; the fields carry the same names without it.
\<close>

type_synonym addr = nat
type_synonym size_t = "64 word"

record ControlBlock =
  gc_strong_count :: size_t
  gc_weak_count :: size_t
  ptr :: "addr option"
  object_destroyed :: bool

record Ptr =
  ctrl :: "addr option"
  is_weak :: bool

record state =
  blocks :: "addr \<Rightarrow> ControlBlock option"
  handles :: "addr \<Rightarrow> Ptr option"
  destroyed :: "addr list"
  freed :: "addr list"

text \<open>
  What is undefined behaviour or an exception in C++ is an error value here:
  \<open>UseAfterFree\<close> for a member call on a control block that was deleted, \<open>DeadHandle\<close> for
  the use of a handle object outside its lifetime, \<open>BadAlloc\<close> for \<^verbatim>\<open>std::bad_alloc\<close>,
  carrying the state in which the exception leaves the throwing function,
  \<open>AssertionFailed\<close> for a failed \<^verbatim>\<open>assert\<close> and \<open>NullDereference\<close> for \<^verbatim>\<open>*p\<close> on a null \<open>p\<close>.
\<close>

datatype 's error = UseAfterFree | DeadHandle | BadAlloc 's | AssertionFailed | NullDereference

definition and_then :: "'e + 'a \<Rightarrow> ('a \<Rightarrow> 'e + 'b) \<Rightarrow> 'e + 'b" where
  "and_then r f = (case r of Inl e \<Rightarrow> Inl e | Inr x \<Rightarrow> f x)"

definition null_Ptr :: Ptr where
  "null_Ptr = \<lparr>ctrl = None, is_weak = False\<rparr>"

definition set_block :: "addr \<Rightarrow> ControlBlock \<Rightarrow> state \<Rightarrow> state" where
  "set_block c b s = s\<lparr>blocks := (blocks s)(c \<mapsto> b)\<rparr>"

definition set_handle :: "addr \<Rightarrow> Ptr \<Rightarrow> state \<Rightarrow> state" where
  "set_handle h p s = s\<lparr>handles := (handles s)(h \<mapsto> p)\<rparr>"

text \<open>\<^verbatim>\<open>delete p\<close> on the managed value, and \<^verbatim>\<open>delete this\<close> on a control block.\<close>

definition delete_value :: "addr \<Rightarrow> state \<Rightarrow> state" where
  "delete_value v s = s\<lparr>destroyed := destroyed s @ [v]\<rparr>"

definition delete_this :: "addr \<Rightarrow> state \<Rightarrow> state" where
  "delete_this c s = s\<lparr>blocks := (blocks s)(c := None), freed := freed s @ [c]\<rparr>"

section \<open>ControlBlock\<close>

text \<open>\<^verbatim>\<open>explicit ControlBlock(T* p)\<close>, constructed at address \<open>c\<close>.\<close>

definition ControlBlock_ctor :: "addr \<Rightarrow> addr option \<Rightarrow> state \<Rightarrow> state" where
  "ControlBlock_ctor c p s =
     set_block c \<lparr>gc_strong_count = 1, gc_weak_count = 0, ptr = p, object_destroyed = False\<rparr> s"

definition add_strong :: "addr \<Rightarrow> state \<Rightarrow> state error + state" where
  "add_strong c s =
     (case blocks s c of
        None \<Rightarrow> Inl UseAfterFree
      | Some b \<Rightarrow> Inr (set_block c (b\<lparr>gc_strong_count := gc_strong_count b + 1\<rparr>) s))"

definition add_weak :: "addr \<Rightarrow> state \<Rightarrow> state error + state" where
  "add_weak c s =
     (case blocks s c of
        None \<Rightarrow> Inl UseAfterFree
      | Some b \<Rightarrow> Inr (set_block c (b\<lparr>gc_weak_count := gc_weak_count b + 1\<rparr>) s))"

text \<open>
  The loop of \<open>try_add_strong\<close>. \<^verbatim>\<open>compare_exchange_weak\<close> may fail although the
  expected value is current; the first argument is the number of such failures before it
  succeeds. With a single thread the local \<open>count\<close> equals the stored counter at every loop
  head (it was just loaded, or reloaded by the failed exchange), so it is read from the block.
\<close>

fun try_add_strong :: "nat \<Rightarrow> addr \<Rightarrow> state \<Rightarrow> state error + (bool \<times> state)" where
  "try_add_strong n c s =
     (case blocks s c of
        None \<Rightarrow> Inl UseAfterFree
      | Some b \<Rightarrow>
          (let count = gc_strong_count b in
           if count > 0 then
             (case n of
                0 \<Rightarrow> Inr (True, set_block c (b\<lparr>gc_strong_count := count + 1\<rparr>) s)
              | Suc m \<Rightarrow> try_add_strong m c s)
           else Inr (False, s)))"

definition destroy_object :: "addr \<Rightarrow> state \<Rightarrow> state error + state" where
  "destroy_object c s =
     (case blocks s c of
        None \<Rightarrow> Inl UseAfterFree
      | Some b \<Rightarrow>
          if \<not> object_destroyed b then
            (let p = ptr b;
                 s1 = set_block c (b\<lparr>object_destroyed := True, ptr := None\<rparr>) s
             in case p of None \<Rightarrow> Inr s1 | Some v \<Rightarrow> Inr (delete_value v s1))
          else Inr s)"

definition release_strong :: "addr \<Rightarrow> state \<Rightarrow> state error + state" where
  "release_strong c s =
     (case blocks s c of
        None \<Rightarrow> Inl UseAfterFree
      | Some b \<Rightarrow>
          (let old = gc_strong_count b;
               s1 = set_block c (b\<lparr>gc_strong_count := old - 1\<rparr>) s
           in if old = 1 then
                and_then (destroy_object c s1) (\<lambda>s2.
                  case blocks s2 c of
                    None \<Rightarrow> Inl UseAfterFree
                  | Some b2 \<Rightarrow> if gc_weak_count b2 = 0 then Inr (delete_this c s2) else Inr s2)
              else Inr s1))"

definition release_weak :: "addr \<Rightarrow> state \<Rightarrow> state error + state" where
  "release_weak c s =
     (case blocks s c of
        None \<Rightarrow> Inl UseAfterFree
      | Some b \<Rightarrow>
          (let old = gc_weak_count b;
               s1 = set_block c (b\<lparr>gc_weak_count := old - 1\<rparr>) s
           in if old = 1 then
                (if gc_strong_count b = 0 then Inr (delete_this c s1) else Inr s1)
              else Inr s1))"

definition get_ptr :: "addr \<Rightarrow> state \<Rightarrow> state error + addr option" where
  "get_ptr c s = (case blocks s c of None \<Rightarrow> Inl UseAfterFree | Some b \<Rightarrow> Inr (ptr b))"

definition is_alive :: "addr \<Rightarrow> state \<Rightarrow> state error + bool" where
  "is_alive c s =
     (case blocks s c of None \<Rightarrow> Inl UseAfterFree | Some b \<Rightarrow> Inr (gc_strong_count b > 0))"

definition strong_count :: "addr \<Rightarrow> state \<Rightarrow> state error + size_t" where
  "strong_count c s =
     (case blocks s c of None \<Rightarrow> Inl UseAfterFree | Some b \<Rightarrow> Inr (gc_strong_count b))"

definition ControlBlock_weak_count :: "addr \<Rightarrow> state \<Rightarrow> state error + size_t" where
  "ControlBlock_weak_count c s =
     (case blocks s c of None \<Rightarrow> Inl UseAfterFree | Some b \<Rightarrow> Inr (gc_weak_count b))"

section \<open>Ptr\<close>

text \<open>
  A constructor takes the address \<open>h\<close> at which the new handle object is placed; a member
  function takes the address of \<^verbatim>\<open>*this\<close>; a function returning a \<open>Ptr\<close> by value takes
  the address \<open>r\<close> of the returned object.
\<close>

text \<open>\<^verbatim>\<open>Ptr()\<close> and \<^verbatim>\<open>Ptr(std::nullptr_t)\<close>.\<close>

definition Ptr_default :: "addr \<Rightarrow> state \<Rightarrow> state" where
  "Ptr_default h s = set_handle h \<lparr>ctrl = None, is_weak = False\<rparr> s"

text \<open>The private \<^verbatim>\<open>Ptr(ControlBlock<T>* ctrl, bool is_weak)\<close>.\<close>

definition Ptr_private :: "addr \<Rightarrow> addr option \<Rightarrow> bool \<Rightarrow> state \<Rightarrow> state" where
  "Ptr_private h c w s = set_handle h \<lparr>ctrl = c, is_weak = w\<rparr> s"

text \<open>
  \<^verbatim>\<open>explicit Ptr(T* ptr)\<close>. The outcome of \<^verbatim>\<open>new ControlBlock<T>(ptr)\<close> is the argument
  \<open>alloc\<close>: the address of the new block, or \<open>None\<close> when the allocation throws. In the
  latter case the handler deletes the raw value and rethrows; the handle object never
  comes to life.
\<close>

definition Ptr_from_raw :: "addr \<Rightarrow> addr option \<Rightarrow> addr option \<Rightarrow> state \<Rightarrow> state error + state" where
  "Ptr_from_raw h p alloc s =
     (case p of
        None \<Rightarrow> Inr (set_handle h \<lparr>ctrl = None, is_weak = False\<rparr> s)
      | Some v \<Rightarrow>
          (case alloc of
             None \<Rightarrow> Inl (BadAlloc (delete_value v s))
           | Some c \<Rightarrow>
               Inr (set_handle h \<lparr>ctrl = Some c, is_weak = False\<rparr>
                      (ControlBlock_ctor c (Some v) s))))"

text \<open>\<^verbatim>\<open>Ptr(const Ptr& other)\<close>.\<close>

definition Ptr_copy :: "addr \<Rightarrow> addr \<Rightarrow> state \<Rightarrow> state error + state" where
  "Ptr_copy h other s =
     (case handles s other of
        None \<Rightarrow> Inl DeadHandle
      | Some q \<Rightarrow>
          (let other_ctrl = ctrl q; other_weak = is_weak q in
           and_then
             (case other_ctrl of
                None \<Rightarrow> Inr s
              | Some c \<Rightarrow> if other_weak then add_weak c s else add_strong c s)
             (\<lambda>s1. Inr (set_handle h \<lparr>ctrl = other_ctrl, is_weak = other_weak\<rparr> s1))))"

text \<open>\<^verbatim>\<open>Ptr(Ptr&& other)\<close>: both members are exchanged out of \<open>other\<close>.\<close>

definition Ptr_move :: "addr \<Rightarrow> addr \<Rightarrow> state \<Rightarrow> state error + state" where
  "Ptr_move h other s =
     (case handles s other of
        None \<Rightarrow> Inl DeadHandle
      | Some q \<Rightarrow>
          Inr (set_handle h \<lparr>ctrl = ctrl q, is_weak = is_weak q\<rparr>
                 (set_handle other \<lparr>ctrl = None, is_weak = False\<rparr> s)))"

text \<open>The private \<open>release\<close>: the counter is given back, the members are left as they are.\<close>

definition release :: "addr \<Rightarrow> state \<Rightarrow> state error + state" where
  "release h s =
     (case handles s h of
        None \<Rightarrow> Inl DeadHandle
      | Some p \<Rightarrow>
          (case ctrl p of
             None \<Rightarrow> Inr s
           | Some c \<Rightarrow> if is_weak p then release_weak c s else release_strong c s))"

text \<open>\<^verbatim>\<open>~Ptr()\<close>: \<open>release\<close>, then the lifetime of the handle object ends.\<close>

definition Ptr_dtor :: "addr \<Rightarrow> state \<Rightarrow> state error + state" where
  "Ptr_dtor h s =
     and_then (release h s) (\<lambda>s1. Inr (s1\<lparr>handles := (handles s1)(h := None)\<rparr>))"

text \<open>A store to one atomic member of the handle object at \<open>h\<close>.\<close>

definition upd_handle :: "addr \<Rightarrow> (Ptr \<Rightarrow> Ptr) \<Rightarrow> state \<Rightarrow> state" where
  "upd_handle h f s = s\<lparr>handles := (handles s)(h := map_option f (handles s h))\<rparr>"

definition swap :: "addr \<Rightarrow> addr \<Rightarrow> state \<Rightarrow> state error + state" where
  "swap h other s =
     (case handles s h of
        None \<Rightarrow> Inl DeadHandle
      | Some p \<Rightarrow>
          (case handles s other of
             None \<Rightarrow> Inl DeadHandle
           | Some q \<Rightarrow>
               (let my_ctrl = ctrl p;
                    s1 = upd_handle h (\<lambda>x. x\<lparr>ctrl := ctrl q\<rparr>) s;
                    s2 = upd_handle other (\<lambda>x. x\<lparr>ctrl := my_ctrl\<rparr>) s1;
                    my_weak = is_weak p;
                    s3 = upd_handle h (\<lambda>x. x\<lparr>is_weak := is_weak q\<rparr>) s2;
                    s4 = upd_handle other (\<lambda>x. x\<lparr>is_weak := my_weak\<rparr>) s3
                in Inr s4)))"

text \<open>
  Copy assignment: copy and swap. The temporary \<^verbatim>\<open>tmp\<close> is a handle object of its own, at
  address \<open>t\<close>, destroyed when its block is left.
\<close>

definition copy_assign :: "addr \<Rightarrow> addr \<Rightarrow> addr \<Rightarrow> state \<Rightarrow> state error + state" where
  "copy_assign t h other s =
     (if h \<noteq> other then
        and_then (Ptr_copy t other s) (\<lambda>s1. and_then (swap h t s1) (Ptr_dtor t))
      else Inr s)"

definition move_assign :: "addr \<Rightarrow> addr \<Rightarrow> state \<Rightarrow> state error + state" where
  "move_assign h other s =
     (if h \<noteq> other then
        and_then (release h s) (\<lambda>s1.
          case handles s1 other of
            None \<Rightarrow> Inl DeadHandle
          | Some q \<Rightarrow>
              (let s2 = upd_handle other (\<lambda>x. x\<lparr>ctrl := None\<rparr>) s1;
                   s3 = upd_handle h (\<lambda>x. x\<lparr>ctrl := ctrl q\<rparr>) s2;
                   s4 = upd_handle other (\<lambda>x. x\<lparr>is_weak := False\<rparr>) s3;
                   s5 = upd_handle h (\<lambda>x. x\<lparr>is_weak := is_weak q\<rparr>) s4
               in Inr s5))
      else Inr s)"

text \<open>\<^verbatim>\<open>reset()\<close>; \<^verbatim>\<open>operator=(std::nullptr_t)\<close> is the same call.\<close>

definition reset :: "addr \<Rightarrow> state \<Rightarrow> state error + state" where
  "reset h s =
     and_then (release h s) (\<lambda>s1.
       Inr (upd_handle h (\<lambda>x. x\<lparr>is_weak := False\<rparr>) (upd_handle h (\<lambda>x. x\<lparr>ctrl := None\<rparr>) s1)))"

definition assign_null :: "addr \<Rightarrow> state \<Rightarrow> state error + state" where
  "assign_null h s = reset h s"

text \<open>\<^verbatim>\<open>reset(T* ptr)\<close>, with the temporary at \<open>t\<close>.\<close>

definition reset_raw :: "addr \<Rightarrow> addr \<Rightarrow> addr option \<Rightarrow> addr option \<Rightarrow> state \<Rightarrow> state error + state" where
  "reset_raw t h p alloc s =
     and_then (Ptr_from_raw t p alloc s) (\<lambda>s1. and_then (swap h t s1) (Ptr_dtor t))"

text \<open>
  \<^verbatim>\<open>safe(strong_ref)\<close> does not read \<^verbatim>\<open>*this\<close>; the local \<^verbatim>\<open>weak_ptr\<close> is the returned
  object, at \<open>r\<close>.
\<close>

definition safe :: "addr \<Rightarrow> addr \<Rightarrow> state \<Rightarrow> state error + state" where
  "safe r strong_ref s =
     (case handles s strong_ref of
        None \<Rightarrow> Inl DeadHandle
      | Some q \<Rightarrow>
          (let ref_ctrl = ctrl q; ref_weak = is_weak q in
           case ref_ctrl of
             None \<Rightarrow> Inr (Ptr_default r s)
           | Some c \<Rightarrow>
               if ref_weak then Inr (Ptr_default r s)
               else
                 (let s1 = Ptr_default r s;
                      s2 = upd_handle r (\<lambda>x. x\<lparr>ctrl := ref_ctrl\<rparr>) s1;
                      s3 = upd_handle r (\<lambda>x. x\<lparr>is_weak := True\<rparr>) s2
                  in add_weak c s3)))"

text \<open>\<open>lock\<close>; \<open>n\<close> is passed on to \<open>try_add_strong\<close>.\<close>

definition lock :: "nat \<Rightarrow> addr \<Rightarrow> addr \<Rightarrow> state \<Rightarrow> state error + state" where
  "lock n r self s =
     (case handles s self of
        None \<Rightarrow> Inl DeadHandle
      | Some p \<Rightarrow>
          (let weak = is_weak p in
           case ctrl p of
             None \<Rightarrow> Ptr_copy r self s
           | Some c \<Rightarrow>
               if \<not> weak then Ptr_copy r self s
               else
                 and_then (try_add_strong n c s) (\<lambda>(ok, s1).
                   if ok then Inr (Ptr_private r (Some c) False s1)
                   else Inr (Ptr_default r s1))))"

definition Ref :: "addr \<Rightarrow> addr \<Rightarrow> state \<Rightarrow> state error + state" where
  "Ref self other s =
     (if self = other then Inr s
      else
        and_then (release self s) (\<lambda>s1.
          case handles s1 other of
            None \<Rightarrow> Inl DeadHandle
          | Some q \<Rightarrow>
              (let other_ctrl = ctrl q; other_weak = is_weak q in
               case other_ctrl of
                 None \<Rightarrow> Inr s1
               | Some c \<Rightarrow>
                   if \<not> other_weak then
                     and_then (add_weak c s1) (\<lambda>s2.
                       Inr (upd_handle self (\<lambda>x. x\<lparr>is_weak := True\<rparr>)
                              (upd_handle self (\<lambda>x. x\<lparr>ctrl := other_ctrl\<rparr>) s2)))
                   else Inr s1)))"

definition expired :: "addr \<Rightarrow> state \<Rightarrow> state error + bool" where
  "expired h s =
     (case handles s h of
        None \<Rightarrow> Inl DeadHandle
      | Some p \<Rightarrow>
          (case ctrl p of
             None \<Rightarrow> Inr True
           | Some c \<Rightarrow> and_then (is_alive c s) (\<lambda>alive. Inr (\<not> alive))))"

definition get :: "addr \<Rightarrow> state \<Rightarrow> state error + addr option" where
  "get h s =
     (case handles s h of
        None \<Rightarrow> Inl DeadHandle
      | Some p \<Rightarrow>
          (case ctrl p of
             None \<Rightarrow> Inr None
           | Some c \<Rightarrow> if is_weak p then Inr None else get_ptr c s))"

text \<open>\<^verbatim>\<open>explicit operator bool()\<close>.\<close>

definition op_bool :: "addr \<Rightarrow> state \<Rightarrow> state error + bool" where
  "op_bool h s =
     (case handles s h of
        None \<Rightarrow> Inl DeadHandle
      | Some p \<Rightarrow>
          if is_weak p then and_then (expired h s) (\<lambda>e. Inr (\<not> e))
          else and_then (get h s) (\<lambda>v. Inr (v \<noteq> None)))"

definition ref_count :: "addr \<Rightarrow> state \<Rightarrow> state error + size_t" where
  "ref_count h s =
     (case handles s h of
        None \<Rightarrow> Inl DeadHandle
      | Some p \<Rightarrow> (case ctrl p of None \<Rightarrow> Inr 0 | Some c \<Rightarrow> strong_count c s))"

definition Ptr_weak_count :: "addr \<Rightarrow> state \<Rightarrow> state error + size_t" where
  "Ptr_weak_count h s =
     (case handles s h of
        None \<Rightarrow> Inl DeadHandle
      | Some p \<Rightarrow> (case ctrl p of None \<Rightarrow> Inr 0 | Some c \<Rightarrow> ControlBlock_weak_count c s))"

definition unique :: "addr \<Rightarrow> state \<Rightarrow> state error + bool" where
  "unique h s = and_then (ref_count h s) (\<lambda>n. Inr (n = 1))"

text \<open>The member function \<^verbatim>\<open>is_weak()\<close>.\<close>

definition Ptr_is_weak :: "addr \<Rightarrow> state \<Rightarrow> state error + bool" where
  "Ptr_is_weak h s = (case handles s h of None \<Rightarrow> Inl DeadHandle | Some p \<Rightarrow> Inr (is_weak p))"

text \<open>\<^verbatim>\<open>operator==(const Ptr&)\<close>, \<^verbatim>\<open>operator!=(const Ptr&)\<close> and the comparisons with \<^verbatim>\<open>nullptr\<close>.\<close>

definition op_eq :: "addr \<Rightarrow> addr \<Rightarrow> state \<Rightarrow> state error + bool" where
  "op_eq h other s = and_then (get h s) (\<lambda>x. and_then (get other s) (\<lambda>y. Inr (x = y)))"

definition op_ne :: "addr \<Rightarrow> addr \<Rightarrow> state \<Rightarrow> state error + bool" where
  "op_ne h other s = and_then (op_eq h other s) (\<lambda>e. Inr (\<not> e))"

definition op_eq_null :: "addr \<Rightarrow> state \<Rightarrow> state error + bool" where
  "op_eq_null h s = and_then (get h s) (\<lambda>x. Inr (x = None))"

definition op_ne_null :: "addr \<Rightarrow> state \<Rightarrow> state error + bool" where
  "op_ne_null h s = and_then (get h s) (\<lambda>x. Inr (x \<noteq> None))"

text \<open>
  \<^verbatim>\<open>New<T>(args...)\<close>: \<open>valloc\<close> is the outcome of \<^verbatim>\<open>new T(...)\<close>, \<open>alloc\<close> that of the
  control block's allocation.
\<close>

definition New :: "addr \<Rightarrow> addr option \<Rightarrow> addr option \<Rightarrow> state \<Rightarrow> state error + state" where
  "New r valloc alloc s =
     (case valloc of
        None \<Rightarrow> Inl (BadAlloc s)
      | Some v \<Rightarrow> Ptr_from_raw r (Some v) alloc s)"

text \<open>
  \<^verbatim>\<open>operator*\<close> and \<^verbatim>\<open>operator->\<close>, with the assertion enabled. The reference returned by
  \<^verbatim>\<open>operator*\<close> is the address of the value.
\<close>

definition op_deref :: "addr \<Rightarrow> state \<Rightarrow> state error + addr" where
  "op_deref h s =
     (case handles s h of
        None \<Rightarrow> Inl DeadHandle
      | Some p \<Rightarrow>
          (case ctrl p of
             None \<Rightarrow> Inl AssertionFailed
           | Some c \<Rightarrow>
               if is_weak p then Inl AssertionFailed
               else and_then (get_ptr c s) (\<lambda>v.
                      case v of None \<Rightarrow> Inl NullDereference | Some a \<Rightarrow> Inr a)))"

definition op_arrow :: "addr \<Rightarrow> state \<Rightarrow> state error + addr option" where
  "op_arrow h s =
     (case handles s h of
        None \<Rightarrow> Inl DeadHandle
      | Some p \<Rightarrow>
          (case ctrl p of
             None \<Rightarrow> Inl AssertionFailed
           | Some c \<Rightarrow> if is_weak p then Inl AssertionFailed else get_ptr c s))"

section \<open>Well-formed states and sequences of operations\<close>

text \<open>
  The handle objects that count towards one counter of the control block at \<open>c\<close>: the
  strong ones (\<open>w = False\<close>) or the weak ones (\<open>w = True\<close>).
\<close>

definition refs :: "state \<Rightarrow> addr \<Rightarrow> bool \<Rightarrow> addr set" where
  "refs s c w = {h. handles s h = Some \<lparr>ctrl = Some c, is_weak = w\<rparr>}"

text \<open>A handle object lives at a non-null address of the 64-bit address space.\<close>

definition valid_addr :: "addr \<Rightarrow> bool" where
  "valid_addr h = (0 < h \<and> h < 2 ^ 64)"

text \<open>
  The data model of the specification for one address \<open>c\<close>: where there is no control
  block no handle points; where there is one, each counter is the number of handles of
  its kind, some handle points to it, and the value is held exactly as long as the strong
  count is not zero.
\<close>

definition block_ok :: "state \<Rightarrow> addr \<Rightarrow> bool" where
  "block_ok s c =
     (case blocks s c of
        None \<Rightarrow> refs s c False = {} \<and> refs s c True = {}
      | Some b \<Rightarrow>
          unat (gc_strong_count b) = card (refs s c False)
          \<and> unat (gc_weak_count b) = card (refs s c True)
          \<and> (gc_strong_count b \<noteq> 0 \<or> gc_weak_count b \<noteq> 0)
          \<and> object_destroyed b = (gc_strong_count b = 0)
          \<and> (ptr b = None) = object_destroyed b)"

definition well_formed :: "state \<Rightarrow> bool" where
  "well_formed s = ((\<forall>h. handles s h \<noteq> None \<longrightarrow> valid_addr h) \<and> (\<forall>c. block_ok s c))"

text \<open>
  The operations that copy, move and release handles. A constructor names the address of
  the new object first; \<open>CopyAssign\<close> names the address of its temporary first.
\<close>

datatype operation =
    Copy addr addr
  | Move addr addr
  | CopyAssign addr addr addr
  | MoveAssign addr addr
  | Swap addr addr
  | Reset addr
  | Destroy addr

fun step :: "operation \<Rightarrow> state \<Rightarrow> state error + state" where
  "step (Copy h other) s = Ptr_copy h other s"
| "step (Move h other) s = Ptr_move h other s"
| "step (CopyAssign t h other) s = copy_assign t h other s"
| "step (MoveAssign h other) s = move_assign h other s"
| "step (Swap h other) s = swap h other s"
| "step (Reset h) s = reset h s"
| "step (Destroy h) s = Ptr_dtor h s"

fun run :: "operation list \<Rightarrow> state \<Rightarrow> state error + state" where
  "run [] s = Inr s"
| "run (x # xs) s = and_then (step x s) (run xs)"

text \<open>
  What the language guarantees for one operation: a new object is placed at a valid
  address where no handle object lives, and the operands are live handle objects.
\<close>

fun applicable :: "operation \<Rightarrow> state \<Rightarrow> bool" where
  "applicable (Copy h other) s =
     (valid_addr h \<and> handles s h = None \<and> handles s other \<noteq> None)"
| "applicable (Move h other) s =
     (valid_addr h \<and> handles s h = None \<and> handles s other \<noteq> None)"
| "applicable (CopyAssign t h other) s =
     (valid_addr t \<and> handles s t = None \<and> handles s h \<noteq> None \<and> handles s other \<noteq> None)"
| "applicable (MoveAssign h other) s = (handles s h \<noteq> None \<and> handles s other \<noteq> None)"
| "applicable (Swap h other) s = (handles s h \<noteq> None \<and> handles s other \<noteq> None)"
| "applicable (Reset h) s = (handles s h \<noteq> None)"
| "applicable (Destroy h) s = (handles s h \<noteq> None)"

fun all_applicable :: "operation list \<Rightarrow> state \<Rightarrow> bool" where
  "all_applicable [] s = True"
| "all_applicable (x # xs) s =
     (applicable x s \<and> (case step x s of Inl e \<Rightarrow> True | Inr s1 \<Rightarrow> all_applicable xs s1))"

text \<open>
  The value \<open>v\<close> behind the control block at \<open>c\<close>, followed through the two logs: \<open>d\<close> and
  \<open>f\<close> are the numbers of earlier deletions of \<open>v\<close> and of a block at \<open>c\<close>. While the block
  exists it has not been freed again; the value has been deleted once more exactly if the
  block says so and is held by the block otherwise; when the block is gone both deletions
  have happened once. No other control block holds \<open>v\<close>.
\<close>

definition tracks :: "nat \<Rightarrow> nat \<Rightarrow> addr \<Rightarrow> addr \<Rightarrow> state \<Rightarrow> bool" where
  "tracks d f c v s =
     ((case blocks s c of
         None \<Rightarrow> count_list (freed s) c = Suc f \<and> count_list (destroyed s) v = Suc d
       | Some b \<Rightarrow>
           count_list (freed s) c = f
           \<and> (if object_destroyed b then count_list (destroyed s) v = Suc d
               else ptr b = Some v \<and> count_list (destroyed s) v = d))
      \<and> (\<forall>c' b'. c' \<noteq> c \<and> blocks s c' = Some b' \<longrightarrow> ptr b' \<noteq> Some v))"

text \<open>The control block at an address after one reference of kind \<open>w\<close> was given back.\<close>

definition after_release :: "bool \<Rightarrow> ControlBlock \<Rightarrow> ControlBlock option" where
  "after_release w b =
     (let ns = (if w then gc_strong_count b else gc_strong_count b - 1);
          nw = (if w then gc_weak_count b - 1 else gc_weak_count b)
      in if ns = 0 \<and> nw = 0 then None
         else Some \<lparr>gc_strong_count = ns, gc_weak_count = nw,
                     ptr = (if ns = 0 then None else ptr b), object_destroyed = (ns = 0)\<rparr>)"

section \<open>Example states\<close>

text \<open>
  A value at address 100 behind the control block at address 10, with the strong handle at
  address 1 and the weak handle at address 2; and the same state before the weak handle
  was made.
\<close>

definition one_strong :: state where
  "one_strong =
     \<lparr>blocks = Map.empty(10 \<mapsto>
        \<lparr>gc_strong_count = 1, gc_weak_count = 0, ptr = Some 100, object_destroyed = False\<rparr>),
      handles = Map.empty(1 \<mapsto> \<lparr>ctrl = Some 10, is_weak = False\<rparr>),
      destroyed = [], freed = []\<rparr>"

definition strong_and_weak :: state where
  "strong_and_weak =
     \<lparr>blocks = Map.empty(10 \<mapsto>
        \<lparr>gc_strong_count = 1, gc_weak_count = 1, ptr = Some 100, object_destroyed = False\<rparr>),
      handles = Map.empty(1 \<mapsto> \<lparr>ctrl = Some 10, is_weak = False\<rparr>,
                          2 \<mapsto> \<lparr>ctrl = Some 10, is_weak = True\<rparr>),
      destroyed = [], freed = []\<rparr>"

text \<open>The value has been destroyed and only the weak handle is left.\<close>

definition only_weak :: state where
  "only_weak =
     \<lparr>blocks = Map.empty(10 \<mapsto>
        \<lparr>gc_strong_count = 0, gc_weak_count = 1, ptr = None, object_destroyed = True\<rparr>),
      handles = Map.empty(2 \<mapsto> \<lparr>ctrl = Some 10, is_weak = True\<rparr>),
      destroyed = [100], freed = []\<rparr>"

definition empty_state :: state where
  "empty_state = \<lparr>blocks = Map.empty, handles = Map.empty, destroyed = [], freed = []\<rparr>"

section \<open>The allocation facade\<close>

text \<open>
  \<^verbatim>\<open>src/gc/c/C_Ptr.cpp\<close> and the macros of \<^verbatim>\<open>src/gc/gc.h\<close>. The state holds the character
  arrays made by \<^verbatim>\<open>new char[n]\<close> that have not been deleted, the owner count of the
  \<^verbatim>\<open>std::shared_ptr\<close> control block of each array, and the lines written to
  \<^verbatim>\<open>std::cout\<close>. A \<^verbatim>\<open>std::shared_ptr<char>\<close> is the address it owns, or \<open>None\<close> when empty.
\<close>

datatype log_line = Freed_memory addr

record cstate =
  chars :: "addr \<Rightarrow> 8 word list option"
  use_count :: "addr \<Rightarrow> nat"
  cout :: "log_line list"

record PtrBase =
  raw :: "addr option"

record LocalPtrCpp =
  cpp_raw :: "addr option"
  holder :: "addr option"

text \<open>\<^verbatim>\<open>DebugDeleter::operator()\<close>: the line is written, then the array is deleted.\<close>

definition DebugDeleter :: "addr \<Rightarrow> cstate \<Rightarrow> cstate" where
  "DebugDeleter p s =
     (let s1 = s\<lparr>cout := cout s @ [Freed_memory p]\<rparr>
      in s1\<lparr>chars := (chars s1)(p := None)\<rparr>)"

text \<open>
  \<^verbatim>\<open>std::shared_ptr<char>(p, DebugDeleter{})\<close> makes \<open>p\<close> owned once; the destructor of a
  \<^verbatim>\<open>std::shared_ptr\<close> gives one ownership back and runs the deleter when none is left.
\<close>

definition shared_ptr_ctor :: "addr \<Rightarrow> cstate \<Rightarrow> addr option \<times> cstate" where
  "shared_ptr_ctor p s = (Some p, s\<lparr>use_count := (use_count s)(p := 1)\<rparr>)"

definition shared_ptr_dtor :: "addr option \<Rightarrow> cstate \<Rightarrow> cstate" where
  "shared_ptr_dtor sp s =
     (case sp of
        None \<Rightarrow> s
      | Some p \<Rightarrow>
          (let n = use_count s p - 1;
               s1 = s\<lparr>use_count := (use_count s)(p := n)\<rparr>
           in if n = 0 then DebugDeleter p s1 else s1))"

text \<open>\<^verbatim>\<open>~LocalPtrCpp()\<close>: the body is empty, then the member \<open>holder\<close> is destroyed.\<close>

definition LocalPtrCpp_dtor :: "LocalPtrCpp \<Rightarrow> cstate \<Rightarrow> cstate" where
  "LocalPtrCpp_dtor cpp s = shared_ptr_dtor (holder cpp) s"

text \<open>
  The statements of \<open>gc_local_malloc\<close> up to the \<^verbatim>\<open>return\<close>: the local \<open>cpp\<close> and the state.
  \<open>alloc\<close> is the outcome of \<^verbatim>\<open>new char[size]\<close>, \<open>fill\<close> the indeterminate content of the new
  array.
\<close>

definition gc_local_malloc_body ::
  "size_t \<Rightarrow> addr option \<Rightarrow> (nat \<Rightarrow> 8 word) \<Rightarrow> cstate \<Rightarrow> cstate error + (LocalPtrCpp \<times> cstate)" where
  "gc_local_malloc_body sz alloc fill s =
     (case alloc of
        None \<Rightarrow> Inl (BadAlloc s)
      | Some p \<Rightarrow>
          (let cpp = \<lparr>cpp_raw = None, holder = None\<rparr>;
               s1 = s\<lparr>chars := (chars s)(p \<mapsto> map fill [0..<unat sz])\<rparr>;
               (sp, s2) = shared_ptr_ctor p s1;
               s3 = shared_ptr_dtor (holder cpp) s2;
               cpp = cpp\<lparr>holder := sp\<rparr>;
               cpp = cpp\<lparr>cpp_raw := holder cpp\<rparr>
           in Inr (cpp, s3)))"

text \<open>
  \<^verbatim>\<open>return *(PtrBase*)&cpp;\<close> copies the member \<open>raw\<close> into the returned \<open>PtrBase\<close>; then the
  scope is left and \<open>cpp\<close> is destroyed.
\<close>

definition gc_local_malloc ::
  "size_t \<Rightarrow> addr option \<Rightarrow> (nat \<Rightarrow> 8 word) \<Rightarrow> cstate \<Rightarrow> cstate error + (PtrBase \<times> cstate)" where
  "gc_local_malloc sz alloc fill s =
     and_then (gc_local_malloc_body sz alloc fill s) (\<lambda>(cpp, s1).
       (let ret = \<lparr>raw = cpp_raw cpp\<rparr>
        in Inr (ret, LocalPtrCpp_dtor cpp s1)))"

definition gc_local_calloc_body ::
  "size_t \<Rightarrow> size_t \<Rightarrow> addr option \<Rightarrow> (nat \<Rightarrow> 8 word) \<Rightarrow> cstate
     \<Rightarrow> cstate error + (LocalPtrCpp \<times> cstate)" where
  "gc_local_calloc_body count sz alloc fill s =
     (let total = count * sz in
      case alloc of
        None \<Rightarrow> Inl (BadAlloc s)
      | Some p \<Rightarrow>
          (let cpp = \<lparr>cpp_raw = None, holder = None\<rparr>;
               s1 = s\<lparr>chars := (chars s)(p \<mapsto> map fill [0..<unat total])\<rparr>;
               (sp, s2) = shared_ptr_ctor p s1;
               s3 = shared_ptr_dtor (holder cpp) s2;
               cpp = cpp\<lparr>holder := sp\<rparr>;
               s4 = s3\<lparr>chars := (chars s3)(p := map_option
                       (\<lambda>bytes. replicate (min (unat total) (length bytes)) 0
                                 @ drop (unat total) bytes) (chars s3 p))\<rparr>;
               cpp = cpp\<lparr>cpp_raw := holder cpp\<rparr>
           in Inr (cpp, s4)))"

definition gc_local_calloc ::
  "size_t \<Rightarrow> size_t \<Rightarrow> addr option \<Rightarrow> (nat \<Rightarrow> 8 word) \<Rightarrow> cstate
     \<Rightarrow> cstate error + (PtrBase \<times> cstate)" where
  "gc_local_calloc count sz alloc fill s =
     and_then (gc_local_calloc_body count sz alloc fill s) (\<lambda>(cpp, s1).
       (let ret = \<lparr>raw = cpp_raw cpp\<rparr>
        in Inr (ret, LocalPtrCpp_dtor cpp s1)))"

text \<open>
  The macros of \<^verbatim>\<open>gc.h\<close>; \<open>sizeof_T\<close> stands for \<^verbatim>\<open>sizeof(T)\<close>, and the cast to \<^verbatim>\<open>T*\<close>
  leaves the address as it is.
\<close>

definition first_raw :: "cstate error + (PtrBase \<times> cstate) \<Rightarrow> cstate error + (addr option \<times> cstate)" where
  "first_raw r = and_then r (\<lambda>(d, s). Inr (raw d, s))"

definition gc_new ::
  "size_t \<Rightarrow> addr option \<Rightarrow> (nat \<Rightarrow> 8 word) \<Rightarrow> cstate \<Rightarrow> cstate error + (addr option \<times> cstate)" where
  "gc_new sizeof_T alloc fill s = first_raw (gc_local_malloc sizeof_T alloc fill s)"

definition gc_new_array ::
  "size_t \<Rightarrow> size_t \<Rightarrow> addr option \<Rightarrow> (nat \<Rightarrow> 8 word) \<Rightarrow> cstate
     \<Rightarrow> cstate error + (addr option \<times> cstate)" where
  "gc_new_array sizeof_T count alloc fill s =
     first_raw (gc_local_calloc count sizeof_T alloc fill s)"

definition gc_malloc ::
  "size_t \<Rightarrow> addr option \<Rightarrow> (nat \<Rightarrow> 8 word) \<Rightarrow> cstate \<Rightarrow> cstate error + (addr option \<times> cstate)" where
  "gc_malloc sz alloc fill s = first_raw (gc_local_malloc sz alloc fill s)"

definition gc_calloc ::
  "size_t \<Rightarrow> size_t \<Rightarrow> addr option \<Rightarrow> (nat \<Rightarrow> 8 word) \<Rightarrow> cstate
     \<Rightarrow> cstate error + (addr option \<times> cstate)" where
  "gc_calloc count sz alloc fill s = first_raw (gc_local_calloc count sz alloc fill s)"

definition no_memory :: cstate where
  "no_memory = \<lparr>chars = Map.empty, use_count = (\<lambda>_. 0), cout = []\<rparr>"

section \<open>Construction from a raw pointer\<close>

text \<open>
  Claim C6. When a handle is constructed from a non-null raw pointer \<open>v\<close> and the allocation
  of the control block fails, the call ends in the error \<open>BadAlloc\<close> (it is reported, not
  swallowed), and in the state that the error carries the raw value has been deleted: \<open>v\<close> is
  the last entry of the deletion log, one more deletion of \<open>v\<close> than before is recorded, and
  nothing else has changed: no control block and no handle object exists that did not exist
  before.
\<close>

theorem Ptr_from_raw_alloc_failure:
  "Ptr_from_raw h (Some v) None s = Inl (BadAlloc (s\<lparr>destroyed := destroyed s @ [v]\<rparr>))
   \<and> count_list (destroyed s @ [v]) v = Suc (count_list (destroyed s) v)"
  by (simp add: Ptr_from_raw_def delete_value_def)

text \<open>
  Claim C9. Constructing a handle from a null raw pointer, whatever the allocator would
  have answered, yields an empty handle: the call succeeds, the new handle object holds no
  control block and is not weak, no control block is allocated (the block store and both
  logs are unchanged), \<open>ref_count\<close> and \<open>weak_count\<close> return 0, \<open>get\<close> returns null, \<open>is_weak\<close>
  returns false and the boolean conversion is false.
\<close>

theorem Ptr_from_raw_null:
  "Ptr_from_raw h None alloc s = Inr (set_handle h \<lparr>ctrl = None, is_weak = False\<rparr> s)
   \<and> blocks (set_handle h \<lparr>ctrl = None, is_weak = False\<rparr> s) = blocks s
   \<and> destroyed (set_handle h \<lparr>ctrl = None, is_weak = False\<rparr> s) = destroyed s
   \<and> freed (set_handle h \<lparr>ctrl = None, is_weak = False\<rparr> s) = freed s
   \<and> handles (set_handle h \<lparr>ctrl = None, is_weak = False\<rparr> s) h = Some \<lparr>ctrl = None, is_weak = False\<rparr>
   \<and> Ptr_is_weak h (set_handle h \<lparr>ctrl = None, is_weak = False\<rparr> s) = Inr False
   \<and> ref_count h (set_handle h \<lparr>ctrl = None, is_weak = False\<rparr> s) = Inr 0
   \<and> Ptr_weak_count h (set_handle h \<lparr>ctrl = None, is_weak = False\<rparr> s) = Inr 0
   \<and> get h (set_handle h \<lparr>ctrl = None, is_weak = False\<rparr> s) = Inr None
   \<and> op_bool h (set_handle h \<lparr>ctrl = None, is_weak = False\<rparr> s) = Inr False"
  by (simp add: Ptr_from_raw_def set_handle_def Ptr_is_weak_def ref_count_def
      Ptr_weak_count_def get_def op_bool_def and_then_def)

section \<open>Observing a handle\<close>

text \<open>
  Claim C10. For every weak handle \<open>get\<close> returns null, whatever the state of its control
  block, so also while the strong count is positive and the value alive. And whenever
  \<open>get\<close>, \<^verbatim>\<open>operator->\<close> or \<^verbatim>\<open>operator*\<close> hands out the address of a value, the handle it
  was called on is a strong handle on a control block that holds this value.
\<close>

theorem get_of_weak_handle:
  "(handles s h = Some p \<and> is_weak p \<longrightarrow> get h s = Inr None)
   \<and> (get h s = Inr (Some v) \<or> op_arrow h s = Inr (Some v) \<or> op_deref h s = Inr v \<longrightarrow>
        (\<exists>q c b. handles s h = Some q \<and> ctrl q = Some c \<and> \<not> is_weak q
               \<and> blocks s c = Some b \<and> ptr b = Some v))"
  by (auto simp: get_def op_arrow_def op_deref_def get_ptr_def and_then_def
      split: option.splits if_splits)

text \<open>
  In \<open>strong_and_weak\<close> the value is alive; the weak handle at 2 gets null, the strong
  handle at 1 gets the value.
\<close>

theorem get_of_weak_handle_witness:
  "handles strong_and_weak 2 = Some \<lparr>ctrl = Some 10, is_weak = True\<rparr>
   \<and> is_alive 10 strong_and_weak = Inr True
   \<and> get 2 strong_and_weak = Inr None
   \<and> get 1 strong_and_weak = Inr (Some 100)
   \<and> handles strong_and_weak 1 = Some \<lparr>ctrl = Some 10, is_weak = False\<rparr>"
  using get_of_weak_handle [of strong_and_weak 2 "\<lparr>ctrl = Some 10, is_weak = True\<rparr>" 100]
    get_of_weak_handle [of strong_and_weak 1 "\<lparr>ctrl = Some 10, is_weak = False\<rparr>" 100]
  by (simp add: strong_and_weak_def is_alive_def get_def get_ptr_def)

section \<open>Equality\<close>

text \<open>
  Claim C4 says that a strong and a weak handle on the same live value compare equal.
  They do not: in \<open>strong_and_weak\<close> the handles at 1 and 2 share the control block 10, whose
  value 100 is alive, and \<^verbatim>\<open>operator==\<close> answers false, because \<open>get\<close> is null on the weak
  one.
\<close>

theorem op_eq_counterexample:
  "handles strong_and_weak 1 = Some \<lparr>ctrl = Some 10, is_weak = False\<rparr>
   \<and> handles strong_and_weak 2 = Some \<lparr>ctrl = Some 10, is_weak = True\<rparr>
   \<and> get_ptr 10 strong_and_weak = Inr (Some 100)
   \<and> is_alive 10 strong_and_weak = Inr True
   \<and> op_eq 1 2 strong_and_weak = Inr False"
  by (simp add: strong_and_weak_def op_eq_def get_def get_ptr_def is_alive_def and_then_def)

text \<open>
  Claim C4, amended. \<^verbatim>\<open>a == b\<close> compares what \<open>get\<close> returns, and \<open>get\<close> is null on a null
  handle and on every weak handle, expired or not. So for two live handle objects:
  handles that are null or weak all compare equal to one another; a strong handle compares
  equal to a null or weak handle only if its control block holds no value any more; and two
  strong handles compare equal iff their control blocks hold the same value pointer.
\<close>

theorem op_eq_by_get:
  "handles s a = Some p \<Longrightarrow> handles s b = Some q \<Longrightarrow>
     ((ctrl p = None \<or> is_weak p) \<and> (ctrl q = None \<or> is_weak q) \<longrightarrow> op_eq a b s = Inr True)
   \<and> (\<forall>c blk. ctrl p = Some c \<and> \<not> is_weak p \<and> blocks s c = Some blk
         \<and> (ctrl q = None \<or> is_weak q) \<longrightarrow>
         op_eq a b s = Inr (ptr blk = None) \<and> op_eq b a s = Inr (ptr blk = None))
   \<and> (\<forall>c blk c' blk'. ctrl p = Some c \<and> \<not> is_weak p \<and> blocks s c = Some blk
         \<and> ctrl q = Some c' \<and> \<not> is_weak q \<and> blocks s c' = Some blk' \<longrightarrow>
         op_eq a b s = Inr (ptr blk = ptr blk'))"
  by (auto simp: op_eq_def get_def get_ptr_def and_then_def split: option.splits)

theorem op_eq_by_get_witness:
  "op_eq 2 2 strong_and_weak = Inr True
   \<and> op_eq 1 2 strong_and_weak = Inr False
   \<and> op_eq 2 1 strong_and_weak = Inr False
   \<and> op_eq 1 1 strong_and_weak = Inr True"
proof -
  have h1: "handles strong_and_weak 1 = Some \<lparr>ctrl = Some 10, is_weak = False\<rparr>"
    and h2: "handles strong_and_weak 2 = Some \<lparr>ctrl = Some 10, is_weak = True\<rparr>"
    and b: "blocks strong_and_weak 10 = Some \<lparr>gc_strong_count = 1, gc_weak_count = 1,
              ptr = Some 100, object_destroyed = False\<rparr>"
    by (simp_all add: strong_and_weak_def)
  show ?thesis
    using op_eq_by_get [OF h2 h2] op_eq_by_get [OF h1 h2] op_eq_by_get [OF h1 h1] b
    by simp
qed

section \<open>Promotion\<close>

text \<open>The result of \<open>try_add_strong\<close> does not depend on the number of failed exchanges.\<close>

lemma try_add_strong_result:
  "blocks s c = Some b \<Longrightarrow>
   try_add_strong n c s =
     (if gc_strong_count b = 0 then Inr (False, s)
      else Inr (True, set_block c (b\<lparr>gc_strong_count := gc_strong_count b + 1\<rparr>) s))"
  by (induction n) (auto simp: word_greater_zero_iff)

text \<open>
  Claim C3 says that the handle returned by \<open>lock\<close> on a weak handle \<open>h\<close> with an outstanding
  strong reference compares equal to \<open>h\<close>. In \<open>strong_and_weak\<close>, \<open>lock\<close> on the weak handle
  at 2 succeeds (the strong count goes from 1 to 2, the result at 3 is strong), and the
  result does not compare equal to the handle at 2.
\<close>

theorem lock_counterexample:
  "handles strong_and_weak 2 = Some \<lparr>ctrl = Some 10, is_weak = True\<rparr>
   \<and> strong_count 10 strong_and_weak = Inr 1
   \<and> and_then (lock 0 3 2 strong_and_weak) (strong_count 10) = Inr 2
   \<and> and_then (lock 0 3 2 strong_and_weak) (Ptr_is_weak 3) = Inr False
   \<and> and_then (lock 0 3 2 strong_and_weak) (op_eq 3 2) = Inr False"
  by (simp add: strong_and_weak_def lock_def and_then_def Ptr_private_def set_handle_def
      set_block_def strong_count_def Ptr_is_weak_def op_eq_def get_def get_ptr_def)

text \<open>
  Claim C3, amended. Let \<open>h\<close> be a live handle object and \<open>r \<noteq> h\<close> the place of the result;
  \<open>n\<close> is any number of failed exchanges.
  \<^item> If \<open>h\<close> holds no control block, the result is a copy of it and no counter changes.
  \<^item> If \<open>h\<close> is strong, the result is a strong handle on the same block, the strong count
    is one higher, and the result compares equal to \<open>h\<close>.
  \<^item> If \<open>h\<close> is weak and the strong count is zero, the result is a null handle and nothing
    else changes.
  \<^item> If \<open>h\<close> is weak and the strong count is not zero, the result is a strong handle on the
    same block and the strong count is one higher. The result compares equal to every
    strong handle \<open>h2\<close> on that block; it compares equal to \<open>h\<close> itself only if the block
    holds no value, since \<open>get\<close> is null on the weak \<open>h\<close>.
\<close>

theorem lock_result:
  "handles s h = Some p \<Longrightarrow> r \<noteq> h \<Longrightarrow>
     (ctrl p = None \<longrightarrow>
        lock n r h s = Inr (set_handle r \<lparr>ctrl = None, is_weak = is_weak p\<rparr> s))
   \<and> (ctrl p = Some c \<and> \<not> is_weak p \<and> blocks s c = Some b \<longrightarrow>
        lock n r h s =
          Inr (set_handle r \<lparr>ctrl = Some c, is_weak = False\<rparr>
                 (set_block c (b\<lparr>gc_strong_count := gc_strong_count b + 1\<rparr>) s))
        \<and> op_eq r h
            (set_handle r \<lparr>ctrl = Some c, is_weak = False\<rparr>
               (set_block c (b\<lparr>gc_strong_count := gc_strong_count b + 1\<rparr>) s)) = Inr True)
   \<and> (ctrl p = Some c \<and> is_weak p \<and> blocks s c = Some b \<and> gc_strong_count b = 0 \<longrightarrow>
        lock n r h s = Inr (set_handle r \<lparr>ctrl = None, is_weak = False\<rparr> s))
   \<and> (ctrl p = Some c \<and> is_weak p \<and> blocks s c = Some b \<and> gc_strong_count b \<noteq> 0 \<longrightarrow>
        lock n r h s =
          Inr (set_handle r \<lparr>ctrl = Some c, is_weak = False\<rparr>
                 (set_block c (b\<lparr>gc_strong_count := gc_strong_count b + 1\<rparr>) s))
        \<and> op_eq r h
            (set_handle r \<lparr>ctrl = Some c, is_weak = False\<rparr>
               (set_block c (b\<lparr>gc_strong_count := gc_strong_count b + 1\<rparr>) s))
            = Inr (ptr b = None)
        \<and> (h2 \<noteq> r \<and> handles s h2 = Some \<lparr>ctrl = Some c, is_weak = False\<rparr> \<longrightarrow>
             op_eq r h2
               (set_handle r \<lparr>ctrl = Some c, is_weak = False\<rparr>
                  (set_block c (b\<lparr>gc_strong_count := gc_strong_count b + 1\<rparr>) s))
               = Inr True))"
  by (auto simp: lock_def Ptr_copy_def add_strong_def try_add_strong_result and_then_def
      Ptr_private_def Ptr_default_def set_handle_def set_block_def op_eq_def get_def get_ptr_def
      simp del: try_add_strong.simps)

theorem lock_result_witness:
  "lock 0 3 2 strong_and_weak =
     Inr (set_handle 3 \<lparr>ctrl = Some 10, is_weak = False\<rparr>
            (set_block 10 \<lparr>gc_strong_count = 2, gc_weak_count = 1, ptr = Some 100,
               object_destroyed = False\<rparr> strong_and_weak))
   \<and> op_eq 3 2
       (set_handle 3 \<lparr>ctrl = Some 10, is_weak = False\<rparr>
          (set_block 10 \<lparr>gc_strong_count = 2, gc_weak_count = 1, ptr = Some 100,
             object_destroyed = False\<rparr> strong_and_weak)) = Inr False
   \<and> op_eq 3 1
       (set_handle 3 \<lparr>ctrl = Some 10, is_weak = False\<rparr>
          (set_block 10 \<lparr>gc_strong_count = 2, gc_weak_count = 1, ptr = Some 100,
             object_destroyed = False\<rparr> strong_and_weak)) = Inr True
   \<and> lock 0 3 1 strong_and_weak =
     Inr (set_handle 3 \<lparr>ctrl = Some 10, is_weak = False\<rparr>
            (set_block 10 \<lparr>gc_strong_count = 2, gc_weak_count = 1, ptr = Some 100,
               object_destroyed = False\<rparr> strong_and_weak))
   \<and> lock 0 3 2 only_weak = Inr (set_handle 3 \<lparr>ctrl = None, is_weak = False\<rparr> only_weak)"
proof -
  have h1: "handles strong_and_weak 1 = Some \<lparr>ctrl = Some 10, is_weak = False\<rparr>"
    and h2: "handles strong_and_weak 2 = Some \<lparr>ctrl = Some 10, is_weak = True\<rparr>"
    and b: "blocks strong_and_weak 10 = Some \<lparr>gc_strong_count = 1, gc_weak_count = 1,
              ptr = Some 100, object_destroyed = False\<rparr>"
    and h2': "handles only_weak 2 = Some \<lparr>ctrl = Some 10, is_weak = True\<rparr>"
    and b': "blocks only_weak 10 = Some \<lparr>gc_strong_count = 0, gc_weak_count = 1,
              ptr = None, object_destroyed = True\<rparr>"
    by (simp_all add: strong_and_weak_def only_weak_def)
  have ne: "(3::nat) \<noteq> 2" "(3::nat) \<noteq> 1"
    by simp_all
  let ?b = "\<lparr>gc_strong_count = 1, gc_weak_count = 1, ptr = Some 100,
              object_destroyed = False\<rparr>"
  let ?b' = "\<lparr>gc_strong_count = 0, gc_weak_count = 1, ptr = None,
              object_destroyed = True\<rparr>"
  show ?thesis
    using lock_result [OF h2 ne(1), of 0 10 ?b 1] lock_result [OF h1 ne(2), of 0 10 ?b]
      lock_result [OF h2' ne(1), of 0 10 ?b'] b b' h1
    by simp
qed

section \<open>A weak handle that outlives the strong one\<close>

text \<open>
  Claim C5. Start in any state. Construct the strong handle \<open>a\<close> on the value \<open>v\<close>, the new
  control block being placed at \<open>c\<close>: the counters are 1 and 0. Derive the weak handle \<open>b\<close>
  from \<open>a\<close> with \<open>safe\<close>: the counters are 1 and 1. Destroy \<open>a\<close>: \<open>v\<close> is deleted, the
  control block is still there with counters 0 and 1, and nothing was freed. \<open>lock\<close> on \<open>b\<close>
  returns a null handle and changes nothing else. Destroy \<open>b\<close>: the control block is freed.
  In general, on an existing control block \<open>release_strong\<close> frees the block exactly when it
  takes the strong count from 1 to 0 and finds the weak count 0, and \<open>release_weak\<close> frees
  it exactly when it takes the weak count from 1 to 0 and finds the strong count 0.
\<close>

theorem weak_outlives_strong:
  "a \<noteq> b \<Longrightarrow> r \<noteq> b \<Longrightarrow>
   (\<exists>s1 s2 s3 s4 s5.
     Ptr_from_raw a (Some v) (Some c) s = Inr s1
     \<and> blocks s1 c = Some \<lparr>gc_strong_count = 1, gc_weak_count = 0, ptr = Some v,
                           object_destroyed = False\<rparr>
     \<and> safe b a s1 = Inr s2
     \<and> handles s2 b = Some \<lparr>ctrl = Some c, is_weak = True\<rparr>
     \<and> blocks s2 c = Some \<lparr>gc_strong_count = 1, gc_weak_count = 1, ptr = Some v,
                           object_destroyed = False\<rparr>
     \<and> destroyed s2 = destroyed s \<and> freed s2 = freed s
     \<and> Ptr_dtor a s2 = Inr s3
     \<and> destroyed s3 = destroyed s @ [v] \<and> freed s3 = freed s
     \<and> blocks s3 c = Some \<lparr>gc_strong_count = 0, gc_weak_count = 1, ptr = None,
                           object_destroyed = True\<rparr>
     \<and> lock n r b s3 = Inr s4
     \<and> handles s4 r = Some \<lparr>ctrl = None, is_weak = False\<rparr>
     \<and> get r s4 = Inr None \<and> op_bool r s4 = Inr False
     \<and> blocks s4 = blocks s3 \<and> destroyed s4 = destroyed s3 \<and> freed s4 = freed s3
     \<and> Ptr_dtor b s4 = Inr s5
     \<and> blocks s5 c = None \<and> freed s5 = freed s @ [c] \<and> destroyed s5 = destroyed s @ [v])
   \<and> (blocks s c = Some blk \<longrightarrow>
        (\<exists>s'. release_strong c s = Inr s'
           \<and> (blocks s' c = None) = (gc_strong_count blk = 1 \<and> gc_weak_count blk = 0)
           \<and> freed s' = (if gc_strong_count blk = 1 \<and> gc_weak_count blk = 0
                          then freed s @ [c] else freed s))
      \<and> (\<exists>s'. release_weak c s = Inr s'
           \<and> (blocks s' c = None) = (gc_weak_count blk = 1 \<and> gc_strong_count blk = 0)
           \<and> freed s' = (if gc_weak_count blk = 1 \<and> gc_strong_count blk = 0
                          then freed s @ [c] else freed s)))"
proof (intro conjI impI)
  assume "a \<noteq> b" "r \<noteq> b"
  then show "\<exists>s1 s2 s3 s4 s5.
     Ptr_from_raw a (Some v) (Some c) s = Inr s1
     \<and> blocks s1 c = Some \<lparr>gc_strong_count = 1, gc_weak_count = 0, ptr = Some v,
                           object_destroyed = False\<rparr>
     \<and> safe b a s1 = Inr s2
     \<and> handles s2 b = Some \<lparr>ctrl = Some c, is_weak = True\<rparr>
     \<and> blocks s2 c = Some \<lparr>gc_strong_count = 1, gc_weak_count = 1, ptr = Some v,
                           object_destroyed = False\<rparr>
     \<and> destroyed s2 = destroyed s \<and> freed s2 = freed s
     \<and> Ptr_dtor a s2 = Inr s3
     \<and> destroyed s3 = destroyed s @ [v] \<and> freed s3 = freed s
     \<and> blocks s3 c = Some \<lparr>gc_strong_count = 0, gc_weak_count = 1, ptr = None,
                           object_destroyed = True\<rparr>
     \<and> lock n r b s3 = Inr s4
     \<and> handles s4 r = Some \<lparr>ctrl = None, is_weak = False\<rparr>
     \<and> get r s4 = Inr None \<and> op_bool r s4 = Inr False
     \<and> blocks s4 = blocks s3 \<and> destroyed s4 = destroyed s3 \<and> freed s4 = freed s3
     \<and> Ptr_dtor b s4 = Inr s5
     \<and> blocks s5 c = None \<and> freed s5 = freed s @ [c] \<and> destroyed s5 = destroyed s @ [v]"
    by (simp add: Ptr_from_raw_def ControlBlock_ctor_def safe_def Ptr_default_def upd_handle_def
      add_weak_def Ptr_dtor_def release_def release_strong_def release_weak_def
      destroy_object_def delete_value_def delete_this_def lock_def try_add_strong_result
      set_handle_def set_block_def and_then_def get_def op_bool_def Let_def
      del: try_add_strong.simps)
next
  assume "blocks s c = Some blk"
  then show "\<exists>s'. release_strong c s = Inr s'
           \<and> (blocks s' c = None) = (gc_strong_count blk = 1 \<and> gc_weak_count blk = 0)
           \<and> freed s' = (if gc_strong_count blk = 1 \<and> gc_weak_count blk = 0
                          then freed s @ [c] else freed s)"
    by (auto simp: release_strong_def destroy_object_def delete_value_def delete_this_def
        set_block_def and_then_def Let_def split: option.splits)
next
  assume "blocks s c = Some blk"
  then show "\<exists>s'. release_weak c s = Inr s'
           \<and> (blocks s' c = None) = (gc_weak_count blk = 1 \<and> gc_strong_count blk = 0)
           \<and> freed s' = (if gc_weak_count blk = 1 \<and> gc_strong_count blk = 0
                          then freed s @ [c] else freed s)"
    by (auto simp: release_weak_def delete_this_def set_block_def Let_def)
qed


text \<open>The scenario from the empty state, and one release of each kind.\<close>

theorem weak_outlives_strong_witness:
  "(\<exists>s1 s2 s3 s4 s5.
     Ptr_from_raw 1 (Some 100) (Some 10) empty_state = Inr s1
     \<and> safe 2 1 s1 = Inr s2
     \<and> Ptr_dtor 1 s2 = Inr s3
     \<and> destroyed s3 = [100] \<and> freed s3 = []
     \<and> lock 0 3 2 s3 = Inr s4
     \<and> handles s4 3 = Some \<lparr>ctrl = None, is_weak = False\<rparr>
     \<and> Ptr_dtor 2 s4 = Inr s5
     \<and> blocks s5 10 = None \<and> freed s5 = [10] \<and> destroyed s5 = [100])
   \<and> (\<exists>s'. release_strong 10 strong_and_weak = Inr s' \<and> blocks s' 10 \<noteq> None \<and> freed s' = [])
   \<and> (\<exists>s'. release_weak 10 only_weak = Inr s' \<and> blocks s' 10 = None \<and> freed s' = [10])"
proof -
  have ne: "(1::nat) \<noteq> 2" "(3::nat) \<noteq> 2"
    by simp_all
  have b: "blocks strong_and_weak 10 = Some \<lparr>gc_strong_count = 1, gc_weak_count = 1,
              ptr = Some 100, object_destroyed = False\<rparr>"
    and b': "blocks only_weak 10 = Some \<lparr>gc_strong_count = 0, gc_weak_count = 1,
              ptr = None, object_destroyed = True\<rparr>"
    and f: "freed strong_and_weak = []" "freed only_weak = []"
    by (simp_all add: strong_and_weak_def only_weak_def)
  from weak_outlives_strong [OF ne, of 100 10 empty_state 0]
  obtain s1 s2 s3 s4 s5 where
    "Ptr_from_raw 1 (Some 100) (Some 10) empty_state = Inr s1"
    "safe 2 1 s1 = Inr s2" "Ptr_dtor 1 s2 = Inr s3"
    "destroyed s3 = destroyed empty_state @ [100]" "freed s3 = freed empty_state"
    "lock 0 3 2 s3 = Inr s4" "handles s4 3 = Some \<lparr>ctrl = None, is_weak = False\<rparr>"
    "Ptr_dtor 2 s4 = Inr s5" "blocks s5 10 = None" "freed s5 = freed empty_state @ [10]"
    "destroyed s5 = destroyed empty_state @ [100]"
    by blast
  then have scenario: "\<exists>s1 s2 s3 s4 s5.
     Ptr_from_raw 1 (Some 100) (Some 10) empty_state = Inr s1
     \<and> safe 2 1 s1 = Inr s2
     \<and> Ptr_dtor 1 s2 = Inr s3
     \<and> destroyed s3 = [100] \<and> freed s3 = []
     \<and> lock 0 3 2 s3 = Inr s4
     \<and> handles s4 3 = Some \<lparr>ctrl = None, is_weak = False\<rparr>
     \<and> Ptr_dtor 2 s4 = Inr s5
     \<and> blocks s5 10 = None \<and> freed s5 = [10] \<and> destroyed s5 = [100]"
    by (simp add: empty_state_def)
  from weak_outlives_strong [OF ne, where c = 10 and s = strong_and_weak and blk = "\<lparr>gc_strong_count = 1,
      gc_weak_count = 1, ptr = Some 100, object_destroyed = False\<rparr>"] b f
  have rs: "\<exists>s'. release_strong 10 strong_and_weak = Inr s' \<and> blocks s' 10 \<noteq> None \<and> freed s' = []"
    by simp
  from weak_outlives_strong [OF ne, where c = 10 and s = only_weak and blk = "\<lparr>gc_strong_count = 0,
      gc_weak_count = 1, ptr = None, object_destroyed = True\<rparr>"] b' f
  have rw: "\<exists>s'. release_weak 10 only_weak = Inr s' \<and> blocks s' 10 = None \<and> freed s' = [10]"
    by simp
  from scenario rs rw show ?thesis
    by blast
qed

section \<open>The allocation facade returns freed memory\<close>

text \<open>
  Claim C7 asks that the address in the returned descriptor is still allocated after the
  call. \<open>gc_local_malloc\<close> does not do that. Whenever the allocation succeeds, at the
  \<^verbatim>\<open>return\<close> statement the array at \<open>p\<close> exists and the local \<open>cpp\<close> is its only owner;
  the returned \<open>PtrBase\<close> carries the address but no ownership, and leaving the function
  destroys \<open>cpp\<close>: the line naming \<open>p\<close> is written and the array is deleted. So the
  function, and with it the macro \<open>gc_malloc\<close>, returns the address \<open>p\<close> in a state where
  no array exists at \<open>p\<close>; for instance for 16 bytes at address 4096 in a state without
  any memory.
\<close>

theorem gc_local_malloc_returns_freed_block:
  "gc_local_malloc_body sz (Some p) fill s =
     Inr (\<lparr>cpp_raw = Some p, holder = Some p\<rparr>,
          s\<lparr>chars := (chars s)(p \<mapsto> map fill [0..<unat sz]),
            use_count := (use_count s)(p := 1)\<rparr>)
   \<and> gc_local_malloc sz (Some p) fill s =
     Inr (\<lparr>raw = Some p\<rparr>,
          s\<lparr>chars := (chars s)(p := None),
            use_count := (use_count s)(p := 0),
            cout := cout s @ [Freed_memory p]\<rparr>)
   \<and> gc_malloc sz (Some p) fill s =
     Inr (Some p,
          s\<lparr>chars := (chars s)(p := None),
            use_count := (use_count s)(p := 0),
            cout := cout s @ [Freed_memory p]\<rparr>)
   \<and> gc_local_malloc 16 (Some 4096) fill no_memory =
     Inr (\<lparr>raw = Some 4096\<rparr>,
          \<lparr>chars = Map.empty, use_count = (\<lambda>_. 0), cout = [Freed_memory 4096]\<rparr>)"
  by (simp add: gc_local_malloc_def gc_local_malloc_body_def shared_ptr_ctor_def
      shared_ptr_dtor_def LocalPtrCpp_dtor_def DebugDeleter_def and_then_def gc_malloc_def
      first_raw_def no_memory_def fun_upd_idem)

text \<open>
  Claim C8 asks that the \<open>count * sz\<close> bytes are zero when \<open>gc_local_calloc\<close> returns. At the
  \<^verbatim>\<open>return\<close> statement the array at \<open>p\<close> has \<open>count * sz\<close> bytes, the product taken modulo
  \<open>2 ^ 64\<close>, and every byte is zero. But as in \<open>gc_local_malloc\<close>, leaving the function
  destroys the only owner: the function returns the address \<open>p\<close> in a state where no array
  exists at \<open>p\<close>. \<open>gc_new_array\<close> is this call with \<^verbatim>\<open>sizeof(T)\<close> as the size and returns the
  same address in the same state.
\<close>

theorem gc_local_calloc_returns_freed_block:
  "gc_local_calloc_body count sz (Some p) fill s =
     Inr (\<lparr>cpp_raw = Some p, holder = Some p\<rparr>,
          s\<lparr>chars := (chars s)(p \<mapsto> replicate (unat (count * sz)) 0),
            use_count := (use_count s)(p := 1)\<rparr>)
   \<and> unat (count * sz) = (unat count * unat sz) mod 2 ^ 64
   \<and> gc_local_calloc count sz (Some p) fill s =
     Inr (\<lparr>raw = Some p\<rparr>,
          s\<lparr>chars := (chars s)(p := None),
            use_count := (use_count s)(p := 0),
            cout := cout s @ [Freed_memory p]\<rparr>)
   \<and> gc_new_array sizeof_T count (Some p) fill s =
     Inr (Some p,
          s\<lparr>chars := (chars s)(p := None),
            use_count := (use_count s)(p := 0),
            cout := cout s @ [Freed_memory p]\<rparr>)
   \<and> gc_local_calloc 2 4 (Some 4096) fill no_memory =
     Inr (\<lparr>raw = Some 4096\<rparr>,
          \<lparr>chars = Map.empty, use_count = (\<lambda>_. 0), cout = [Freed_memory 4096]\<rparr>)"
  by (simp add: gc_local_calloc_def gc_local_calloc_body_def shared_ptr_ctor_def
      shared_ptr_dtor_def LocalPtrCpp_dtor_def DebugDeleter_def and_then_def gc_new_array_def
      first_raw_def no_memory_def fun_upd_idem unat_word_ariths Let_def)

section \<open>Well-formed states are preserved\<close>

lemma refs_handles_upd:
  "refs (s\<lparr>handles := (handles s)(h := x)\<rparr>) c w =
     (if x = Some \<lparr>ctrl = Some c, is_weak = w\<rparr> then insert h (refs s c w)
      else refs s c w - {h})"
  by (auto simp: refs_def)

lemma refs_same_handles: "handles s' = handles s \<Longrightarrow> refs s' = refs s"
  by (simp add: refs_def fun_eq_iff)

lemma card_below_bound:
  fixes S :: "nat set"
  assumes "S \<subseteq> {1..<N} - {h}" "0 < h" "h < N"
  shows "card S < N - 1"
proof -
  have "card S \<le> card ({1..<N} - {h})"
    using assms(1) by (intro card_mono) auto
  also have "\<dots> = N - 1 - 1"
    using assms(2,3) by simp
  finally show ?thesis using assms(2,3) by simp
qed

lemma valid_addr_set: "{h. valid_addr h} = {1..<2 ^ 64}"
  unfolding valid_addr_def atLeastLessThan_def atLeast_def lessThan_def by auto

lemma refs_valid:
  "\<forall>h. handles s h \<noteq> None \<longrightarrow> valid_addr h \<Longrightarrow> refs s c w \<subseteq> {h. valid_addr h}"
  unfolding refs_def by blast

lemma finite_valid_addr: "finite {h. valid_addr h}"
  unfolding valid_addr_set by (rule finite_atLeastLessThan)

lemma finite_refs:
  "\<forall>h. handles s h \<noteq> None \<longrightarrow> valid_addr h \<Longrightarrow> finite (refs s c w)"
  by (rule finite_subset [OF refs_valid finite_valid_addr])

lemma card_refs_fresh:
  assumes "\<forall>h. handles s h \<noteq> None \<longrightarrow> valid_addr h" "handles s h = None" "valid_addr h"
  shows "card (refs s c w) < 2 ^ 64 - 1"
proof (rule card_below_bound [where h = h])
  have "h \<notin> refs s c w"
    using assms(2) unfolding refs_def by simp
  then show "refs s c w \<subseteq> {1..<2 ^ 64} - {h}"
    using refs_valid [OF assms(1), of c w] unfolding valid_addr_set by blast
  show "0 < h" "h < 2 ^ 64"
    using assms(3) unfolding valid_addr_def by blast+
qed

lemma unat_incr:
  fixes x :: size_t
  assumes "unat x < 2 ^ 64 - 1"
  shows "unat (x + 1) = Suc (unat x)" and "x + 1 \<noteq> 0"
proof -
  have "unat x + unat (1 :: size_t) < 2 ^ LENGTH(64)"
    using assms by simp
  then have "unat (x + 1) = unat x + unat (1 :: size_t)"
    by (simp only: unat_add_lem)
  then show "unat (x + 1) = Suc (unat x)" by simp
  then show "x + 1 \<noteq> 0" by (metis Zero_not_Suc unat_0)
qed

lemma unat_decr:
  fixes x :: size_t
  assumes "unat x = Suc n"
  shows "unat (x - 1) = n" and "(x - 1 = 0) = (x = 1)" and "x \<noteq> 0"
proof -
  show nz: "x \<noteq> 0" using assms by auto
  then show "unat (x - 1) = n" using assms by (simp add: unat_minus_one)
  show "(x - 1 = 0) = (x = 1)" by auto
qed


lemma refs_fresh: "handles s h = None \<Longrightarrow> h \<notin> refs s c w"
  by (simp add: refs_def)

lemma refs_member: "(h \<in> refs s c w) = (handles s h = Some \<lparr>ctrl = Some c, is_weak = w\<rparr>)"
  by (simp add: refs_def)

lemma wf_handles_valid: "well_formed s \<Longrightarrow> \<forall>h. handles s h \<noteq> None \<longrightarrow> valid_addr h"
  by (simp add: well_formed_def)

lemma wf_block_ok: "well_formed s \<Longrightarrow> block_ok s c"
  by (simp add: well_formed_def)

lemma wf_finite_refs: "well_formed s \<Longrightarrow> finite (refs s c w)"
  by (rule finite_refs [OF wf_handles_valid])

lemma wf_pointee:
  assumes "well_formed s" "handles s h = Some p" "ctrl p = Some c"
  obtains b where "blocks s c = Some b"
proof (cases "blocks s c")
  case None
  have "p = \<lparr>ctrl = Some c, is_weak = is_weak p\<rparr>"
    using assms(3) by (cases p) simp
  then have "h \<in> refs s c (is_weak p)"
    using assms(2) by (simp add: refs_member)
  moreover have "refs s c (is_weak p) = {}"
    using wf_block_ok [OF assms(1), of c] None by (cases "is_weak p") (simp_all add: block_ok_def)
  ultimately show ?thesis by simp
next
  case (Some b)
  then show ?thesis by (rule that)
qed

lemma block_ok_cong:
  "blocks s' c = blocks s c \<Longrightarrow> refs s' c False = refs s c False \<Longrightarrow>
   refs s' c True = refs s c True \<Longrightarrow> block_ok s' c = block_ok s c"
  by (simp add: block_ok_def split: option.splits)

lemma block_ok_Some:
  "blocks s c = Some b \<Longrightarrow>
   block_ok s c =
     (unat (gc_strong_count b) = card (refs s c False)
      \<and> unat (gc_weak_count b) = card (refs s c True)
      \<and> (gc_strong_count b \<noteq> 0 \<or> gc_weak_count b \<noteq> 0)
      \<and> object_destroyed b = (gc_strong_count b = 0)
      \<and> (ptr b = None) = object_destroyed b)"
  by (simp add: block_ok_def)

lemma block_ok_None:
  "blocks s c = None \<Longrightarrow> block_ok s c = (refs s c False = {} \<and> refs s c True = {})"
  by (simp add: block_ok_def)

text \<open>A new handle on an existing block, its counter incremented.\<close>

lemma wf_add_ref:
  assumes wfs: "well_formed s" and fresh: "handles s h = None" and va: "valid_addr h"
    and blk: "blocks s c = Some b"
    and alive: "\<not> w \<Longrightarrow> gc_strong_count b \<noteq> 0"
    and b': "b' = (if w then b\<lparr>gc_weak_count := gc_weak_count b + 1\<rparr>
                   else b\<lparr>gc_strong_count := gc_strong_count b + 1\<rparr>)"
  shows "well_formed (set_handle h \<lparr>ctrl = Some c, is_weak = w\<rparr> (set_block c b' s))"
proof -
  let ?s = "set_handle h \<lparr>ctrl = Some c, is_weak = w\<rparr> (set_block c b' s)"
  have hv: "\<forall>h. handles s h \<noteq> None \<longrightarrow> valid_addr h"
    by (rule wf_handles_valid [OF wfs])
  have refs': "refs ?s c' w' = (if c' = c \<and> w' = w then insert h (refs s c' w') else refs s c' w')"
    for c' w'
    using refs_fresh [OF fresh, of c' w']
    by (auto simp: refs_def set_handle_def set_block_def)
  have ok: "block_ok s c" by (rule wf_block_ok [OF wfs])
  have cnt: "unat (gc_strong_count b) = card (refs s c False)"
    "unat (gc_weak_count b) = card (refs s c True)"
    using ok blk by (simp_all add: block_ok_def)
  have bound: "card (refs s c w') < 2 ^ 64 - 1" for w'
    by (rule card_refs_fresh [OF hv fresh va])
  have "block_ok ?s c'" for c'
  proof (cases "c' = c")
    case False
    then have "blocks ?s c' = blocks s c'"
      by (simp add: set_handle_def set_block_def)
    moreover have "refs ?s c' w' = refs s c' w'" for w'
      using False by (simp add: refs')
    ultimately show ?thesis
      using wf_block_ok [OF wfs, of c'] block_ok_cong [of ?s c' s] by simp
  next
    case True
    have blk': "blocks ?s c = Some b'"
      by (simp add: set_handle_def set_block_def)
    have cs: "card (refs ?s c False) = (if w then card (refs s c False)
                 else Suc (card (refs s c False)))"
      and cw: "card (refs ?s c True) = (if w then Suc (card (refs s c True))
                 else card (refs s c True))"
      using refs_fresh [OF fresh, of c] wf_finite_refs [OF wfs, of c]
      by (simp_all add: refs')
    have incs: "unat (gc_strong_count b + 1) = Suc (card (refs s c False))"
      "gc_strong_count b + 1 \<noteq> 0"
      using unat_incr [of "gc_strong_count b"] bound [of False] cnt by simp_all
    have incw: "unat (gc_weak_count b + 1) = Suc (card (refs s c True))"
      "gc_weak_count b + 1 \<noteq> 0"
      using unat_incr [of "gc_weak_count b"] bound [of True] cnt by simp_all
    have "block_ok ?s c"
      unfolding block_ok_Some [OF blk'] cs cw
      using ok alive incs incw b' by (cases w) (simp_all add: block_ok_Some [OF blk])
    then show ?thesis
      using \<open>c' = c\<close> by simp
  qed
  moreover have "\<forall>h'. handles ?s h' \<noteq> None \<longrightarrow> valid_addr h'"
    using hv va by (simp add: set_handle_def set_block_def)
  ultimately show ?thesis
    by (simp add: well_formed_def)
qed


lemma wf_nullish_upd:
  assumes wfs: "well_formed s"
    and old: "\<And>p. handles s h = Some p \<Longrightarrow> ctrl p = None"
    and new: "\<And>p. x = Some p \<Longrightarrow> ctrl p = None \<and> valid_addr h"
    and s': "handles s' = (handles s)(h := x)" "blocks s' = blocks s"
  shows "well_formed s'"
proof -
  have "refs s' c w = refs s c w" for c w
  proof (rule set_eqI)
    fix y
    show "(y \<in> refs s' c w) = (y \<in> refs s c w)"
    proof (cases "y = h")
      case True
      have "handles s h \<noteq> Some \<lparr>ctrl = Some c, is_weak = w\<rparr>"
        using old [of "\<lparr>ctrl = Some c, is_weak = w\<rparr>"] by auto
      moreover have "x \<noteq> Some \<lparr>ctrl = Some c, is_weak = w\<rparr>"
        using new [of "\<lparr>ctrl = Some c, is_weak = w\<rparr>"] by auto
      ultimately show ?thesis
        using True by (simp add: refs_def s')
    next
      case False
      then show ?thesis
        by (simp add: refs_def s')
    qed
  qed
  then have "block_ok s' c" for c
    using block_ok_cong [of s' c s] s'(2) wf_block_ok [OF wfs, of c] by simp
  moreover have "valid_addr h'" if "handles s' h' \<noteq> None" for h'
  proof (cases "h' = h")
    case True
    then show ?thesis
      using that new unfolding s' by (cases x) simp_all
  next
    case False
    then show ?thesis
      using that wf_handles_valid [OF wfs] unfolding s' by simp
  qed
  ultimately show ?thesis
    by (simp add: well_formed_def)
qed

lemma wf_transpose:
  assumes wfs: "well_formed s" and va: "valid_addr h" "valid_addr other"
    and s': "handles s' = (\<lambda>x. handles s (if x = h then other else if x = other then h else x))"
      "blocks s' = blocks s"
  shows "well_formed s'"
proof -
  define t where "t = (\<lambda>x. if x = h then other else if x = other then h else x)"
  have invol: "t (t x) = x" for x
    by (simp add: t_def)
  have inj: "inj_on t A" for A
    by (rule inj_on_inverseI [where g = t]) (rule invol)
  have refs': "refs s' c w = t ` refs s c w" for c w
  proof (rule set_eqI)
    fix x
    have "(x \<in> refs s' c w) = (t x \<in> refs s c w)"
      unfolding refs_def s' t_def by simp
    also have "\<dots> = (x \<in> t ` refs s c w)"
      using invol by (metis image_iff)
    finally show "(x \<in> refs s' c w) = (x \<in> t ` refs s c w)" .
  qed
  have "card (refs s' c w) = card (refs s c w)" for c w
    unfolding refs' by (rule card_image [OF inj])
  moreover have "(refs s' c w = {}) = (refs s c w = {})" for c w
    unfolding refs' by simp
  ultimately have "block_ok s' c" for c
    using wf_block_ok [OF wfs, of c] s'(2) by (simp add: block_ok_def split: option.splits)
  moreover have "\<forall>h'. handles s' h' \<noteq> None \<longrightarrow> valid_addr h'"
  proof (intro allI impI)
    fix h' assume "handles s' h' \<noteq> None"
    then have "handles s (t h') \<noteq> None"
      unfolding s' t_def by simp
    then have "valid_addr (t h')"
      using wf_handles_valid [OF wfs] by blast
    then show "valid_addr h'"
      using va by (cases "h' = h"; cases "h' = other") (simp_all add: t_def)
  qed
  ultimately show ?thesis
    by (simp add: well_formed_def)
qed

lemma tracks_frame:
  assumes logs: "destroyed s' = destroyed s" "freed s' = freed s"
    and blk: "\<And>c. map_option (\<lambda>b. (object_destroyed b, ptr b)) (blocks s' c) =
              map_option (\<lambda>b. (object_destroyed b, ptr b)) (blocks s c)"
    and tr: "tracks d f c v s"
  shows "tracks d f c v s'"
proof -
  have prev: "\<exists>b. blocks s c' = Some b \<and> object_destroyed b = object_destroyed b'
                \<and> ptr b = ptr b'"
    if "blocks s' c' = Some b'" for c' b'
    using blk [of c'] that by (cases "blocks s c'") simp_all
  have none: "blocks s c' = None" if "blocks s' c' = None" for c'
    using blk [of c'] that by (cases "blocks s c'") simp_all
  have uniq: "\<forall>c' b'. c' \<noteq> c \<and> blocks s' c' = Some b' \<longrightarrow> ptr b' \<noteq> Some v"
  proof (intro allI impI)
    fix c' b' assume a: "c' \<noteq> c \<and> blocks s' c' = Some b'"
    then obtain b where "blocks s c' = Some b" "ptr b = ptr b'"
      using prev by blast
    then show "ptr b' \<noteq> Some v"
      using tr a unfolding tracks_def by metis
  qed
  have main: "case blocks s' c of
         None \<Rightarrow> count_list (freed s') c = Suc f \<and> count_list (destroyed s') v = Suc d
       | Some b \<Rightarrow>
           count_list (freed s') c = f
           \<and> (if object_destroyed b then count_list (destroyed s') v = Suc d
               else ptr b = Some v \<and> count_list (destroyed s') v = d)"
  proof (cases "blocks s' c")
    case None
    then show ?thesis
      using tr none [OF None] logs by (simp add: tracks_def)
  next
    case (Some b')
    then obtain b where "blocks s c = Some b" "object_destroyed b = object_destroyed b'"
      "ptr b = ptr b'"
      using prev by blast
    then show ?thesis
      using tr Some logs by (auto simp: tracks_def split: if_splits)
  qed
  show ?thesis
    unfolding tracks_def using main uniq by (rule conjI)
qed


lemma release_strong_effect:
  assumes blk: "blocks s c = Some b" and nz: "gc_strong_count b \<noteq> 0"
    and d: "\<not> object_destroyed b" and p: "ptr b = Some v"
  shows "\<exists>s1. release_strong c s = Inr s1
          \<and> handles s1 = handles s
          \<and> blocks s1 = (blocks s)(c := after_release False b)
          \<and> destroyed s1 = (if gc_strong_count b = 1 then destroyed s @ [v] else destroyed s)
          \<and> freed s1 = (if after_release False b = None then freed s @ [c] else freed s)"
proof (cases "gc_strong_count b = 1")
  case True
  have eq: "b\<lparr>gc_strong_count := 0, object_destroyed := True, ptr := None\<rparr> =
      \<lparr>gc_strong_count = 0, gc_weak_count = gc_weak_count b,
         ptr = None, object_destroyed = True\<rparr>"
    by (cases b) simp
  show ?thesis
    using True blk d p
    by (simp add: release_strong_def destroy_object_def delete_value_def delete_this_def
        set_block_def and_then_def after_release_def Let_def eq)
next
  case False
  then have "gc_strong_count b - 1 \<noteq> 0"
    by simp
  moreover have eq: "b\<lparr>gc_strong_count := gc_strong_count b - 1\<rparr> =
      \<lparr>gc_strong_count = gc_strong_count b - 1, gc_weak_count = gc_weak_count b,
         ptr = ptr b, object_destroyed = False\<rparr>"
    using d by (cases b) simp
  ultimately show ?thesis
    using blk False
    by (simp add: release_strong_def set_block_def after_release_def Let_def eq)
qed

lemma release_weak_effect:
  assumes blk: "blocks s c = Some b" and nz: "gc_weak_count b \<noteq> 0"
    and d: "object_destroyed b = (gc_strong_count b = 0)"
    and p: "(ptr b = None) = object_destroyed b"
  shows "\<exists>s1. release_weak c s = Inr s1
          \<and> handles s1 = handles s
          \<and> blocks s1 = (blocks s)(c := after_release True b)
          \<and> destroyed s1 = destroyed s
          \<and> freed s1 = (if after_release True b = None then freed s @ [c] else freed s)"
proof -
  have eq: "b\<lparr>gc_weak_count := x\<rparr> =
      \<lparr>gc_strong_count = gc_strong_count b, gc_weak_count = x,
         ptr = (if gc_strong_count b = 0 then None else ptr b),
         object_destroyed = (gc_strong_count b = 0)\<rparr>" for x
    using d p by (cases b) auto
  have one: "(gc_weak_count b - 1 = 0) = (gc_weak_count b = 1)"
    by auto
  show ?thesis
    using blk one
    by (auto simp: release_weak_def set_block_def delete_this_def after_release_def Let_def eq)
qed


lemma wf_drop_ref:
  assumes wfs: "well_formed s" and hp: "handles s h = Some \<lparr>ctrl = Some c, is_weak = w\<rparr>"
    and blk: "blocks s c = Some b"
    and s': "handles s' = (handles s)(h := None)" "blocks s' = (blocks s)(c := after_release w b)"
  shows "well_formed s'"
proof -
  define ns where "ns = (if w then gc_strong_count b else gc_strong_count b - 1)"
  define nw where "nw = (if w then gc_weak_count b - 1 else gc_weak_count b)"
  have ok: "unat (gc_strong_count b) = card (refs s c False)"
    "unat (gc_weak_count b) = card (refs s c True)"
    "object_destroyed b = (gc_strong_count b = 0)"
    "(ptr b = None) = object_destroyed b"
    using wf_block_ok [OF wfs, of c] by (simp_all add: block_ok_Some [OF blk])
  have fin: "finite (refs s c' w')" for c' w'
    by (rule wf_finite_refs [OF wfs])
  have refs': "refs s' c' w' = refs s c' w' - {h}" for c' w'
    unfolding refs_def s' by auto
  have mem: "(h \<in> refs s c' w') = (c' = c \<and> w' = w)" for c' w'
    using hp by (auto simp: refs_member)
  have card': "card (refs s c' w') = (if c' = c \<and> w' = w then Suc (card (refs s' c' w'))
                 else card (refs s' c' w'))" for c' w'
  proof (cases "c' = c \<and> w' = w")
    case True
    then have "h \<in> refs s c' w'" using mem by simp
    then have "card (refs s c' w') = Suc (card (refs s c' w' - {h}))"
      by (rule card.remove [OF fin])
    then show ?thesis
      using True unfolding refs' by simp
  next
    case False
    then have "h \<notin> refs s c' w'" using mem by simp
    then have "refs s c' w' - {h} = refs s c' w'" by simp
    then show ?thesis
      using False unfolding refs' by auto
  qed
  have cs: "unat ns = card (refs s' c False)"
  proof (cases w)
    case True
    then show ?thesis using ok(1) card' [of c False] by (simp add: ns_def)
  next
    case False
    then have "unat (gc_strong_count b) = Suc (card (refs s' c False))"
      using ok(1) card' [of c False] by simp
    then have "unat (gc_strong_count b - 1) = card (refs s' c False)"
      by (rule unat_decr(1))
    then show ?thesis
      using False by (simp add: ns_def)
  qed
  have cw: "unat nw = card (refs s' c True)"
  proof (cases w)
    case False
    then show ?thesis using ok(2) card' [of c True] by (simp add: nw_def)
  next
    case True
    then have "unat (gc_weak_count b) = Suc (card (refs s' c True))"
      using ok(2) card' [of c True] by simp
    then have "unat (gc_weak_count b - 1) = card (refs s' c True)"
      by (rule unat_decr(1))
    then show ?thesis
      using True by (simp add: nw_def)
  qed
  have fin': "finite (refs s' c' w')" for c' w'
    unfolding refs' using fin by simp
  have zero: "(ns = 0) = (refs s' c False = {})" "(nw = 0) = (refs s' c True = {})"
  proof -
    have "(ns = 0) = (unat ns = 0)" "(nw = 0) = (unat nw = 0)"
      by (simp_all add: unat_eq_0)
    then show "(ns = 0) = (refs s' c False = {})" "(nw = 0) = (refs s' c True = {})"
      unfolding cs cw by (simp_all add: card_0_eq [OF fin'])
  qed
  have ar: "after_release w b =
      (if ns = 0 \<and> nw = 0 then None
       else Some \<lparr>gc_strong_count = ns, gc_weak_count = nw,
                   ptr = (if ns = 0 then None else ptr b), object_destroyed = (ns = 0)\<rparr>)"
    by (simp add: after_release_def ns_def nw_def Let_def)
  have strong_alive: "ptr b \<noteq> None" if "ns \<noteq> 0"
  proof -
    have "gc_strong_count b \<noteq> 0"
    proof (cases w)
      case True
      then show ?thesis using that by (simp add: ns_def)
    next
      case False
      then have "unat (gc_strong_count b) = Suc (card (refs s' c False))"
        using ok(1) card' [of c False] by simp
      then show ?thesis by (rule unat_decr(3))
    qed
    then show ?thesis using ok(3,4) by simp
  qed
  have "block_ok s' c'" for c'
  proof (cases "c' = c")
    case False
    then have "refs s' c' w' = refs s c' w'" for w'
      using mem [of c' w'] unfolding refs' by simp
    moreover have "blocks s' c' = blocks s c'"
      using False by (simp add: s')
    ultimately show ?thesis
      using wf_block_ok [OF wfs, of c'] block_ok_cong [of s' c' s] by simp
  next
    case True
    show ?thesis
    proof (cases "ns = 0 \<and> nw = 0")
      case True
      then have "blocks s' c = None"
        by (simp add: s' ar)
      then show ?thesis
        using True zero \<open>c' = c\<close> by (simp add: block_ok_None)
    next
      case False
      then have b': "blocks s' c = Some \<lparr>gc_strong_count = ns, gc_weak_count = nw,
                   ptr = (if ns = 0 then None else ptr b), object_destroyed = (ns = 0)\<rparr>"
        by (simp add: s' ar)
      have "ns = 0 \<longrightarrow> nw \<noteq> 0" "ns \<noteq> 0 \<longrightarrow> ptr b \<noteq> None"
        using False strong_alive by blast+
      then show ?thesis
        unfolding \<open>c' = c\<close> block_ok_Some [OF b']
        by (simp add: cs cw)
    qed
  qed
  moreover have "\<forall>h'. handles s' h' \<noteq> None \<longrightarrow> valid_addr h'"
    using wf_handles_valid [OF wfs] by (simp add: s')
  ultimately show ?thesis
    by (simp add: well_formed_def)
qed

lemma tracks_drop_ref:
  assumes blk: "blocks s c = Some b"
    and ok: "object_destroyed b = (gc_strong_count b = 0)" "(ptr b = None) = object_destroyed b"
    and nz: "\<not> w \<Longrightarrow> gc_strong_count b \<noteq> 0"
    and tr: "tracks d f c0 v0 s"
    and s1: "blocks s1 = (blocks s)(c := after_release w b)"
      "destroyed s1 = (if \<not> w \<and> gc_strong_count b = 1 then destroyed s @ [the (ptr b)]
                       else destroyed s)"
      "freed s1 = (if after_release w b = None then freed s @ [c] else freed s)"
  shows "tracks d f c0 v0 s1"
proof -
  define ns where "ns = (if w then gc_strong_count b else gc_strong_count b - 1)"
  define nw where "nw = (if w then gc_weak_count b - 1 else gc_weak_count b)"
  have ar: "after_release w b =
      (if ns = 0 \<and> nw = 0 then None
       else Some \<lparr>gc_strong_count = ns, gc_weak_count = nw,
                   ptr = (if ns = 0 then None else ptr b), object_destroyed = (ns = 0)\<rparr>)"
    by (simp add: after_release_def ns_def nw_def Let_def)
  have ns0: "(ns = 0) = (if w then gc_strong_count b = 0 else gc_strong_count b = 1)"
    by (auto simp: ns_def)
  have uniq: "\<forall>c' b'. c' \<noteq> c0 \<and> blocks s c' = Some b' \<longrightarrow> ptr b' \<noteq> Some v0"
    using tr by (simp add: tracks_def)
  show ?thesis
  proof (cases "c0 = c")
    case True
    have t: "count_list (freed s) c = f"
      "if object_destroyed b then count_list (destroyed s) v0 = Suc d
       else ptr b = Some v0 \<and> count_list (destroyed s) v0 = d"
      using tr blk True by (simp_all add: tracks_def)
    have dcount: "count_list (destroyed s1) v0 = (if ns = 0 then Suc d else d)"
    proof (cases w)
      case True
      then show ?thesis
        using t(2) ok(1) by (simp add: s1 ns0)
    next
      case False
      then have "\<not> object_destroyed b"
        using nz ok(1) by simp
      then show ?thesis
        using t(2) False by (auto simp: s1 ns0)
    qed
    have alive: "ptr b = Some v0" if "ns \<noteq> 0"
    proof -
      have "gc_strong_count b \<noteq> 0"
        using that nz by (cases w) (simp_all add: ns_def)
      then show ?thesis
        using t(2) ok(1) by simp
    qed
    have u1: "\<forall>c' b'. c' \<noteq> c0 \<and> blocks s1 c' = Some b' \<longrightarrow> ptr b' \<noteq> Some v0"
      using uniq True by (simp add: s1)
    show ?thesis
    proof (cases "ns = 0 \<and> nw = 0")
      case yes: True
      then have "blocks s1 c = None" "freed s1 = freed s @ [c]"
        by (simp_all add: s1 ar)
      then show ?thesis
        unfolding tracks_def using yes dcount t(1) u1 True by simp
    next
      case no: False
      then have "blocks s1 c = Some \<lparr>gc_strong_count = ns, gc_weak_count = nw,
                   ptr = (if ns = 0 then None else ptr b), object_destroyed = (ns = 0)\<rparr>"
        "freed s1 = freed s"
        by (simp_all add: s1 ar)
      then show ?thesis
        unfolding tracks_def using dcount t(1) u1 True alive by simp
    qed
  next
    case False
    have pb: "ptr b \<noteq> Some v0"
      using uniq blk False by (metis (no_types))
    have keep: "blocks s1 c0 = blocks s c0"
      using False by (simp add: s1)
    have fr: "count_list (freed s1) c0 = count_list (freed s) c0"
      using False by (simp add: s1)
    have de: "count_list (destroyed s1) v0 = count_list (destroyed s) v0"
      using pb ok nz by (cases "ptr b") (auto simp: s1)
    have u1: "\<forall>c' b'. c' \<noteq> c0 \<and> blocks s1 c' = Some b' \<longrightarrow> ptr b' \<noteq> Some v0"
    proof (intro allI impI)
      fix c' b' assume a: "c' \<noteq> c0 \<and> blocks s1 c' = Some b'"
      show "ptr b' \<noteq> Some v0"
      proof (cases "c' = c")
        case True
        then have "ptr b' = None \<or> ptr b' = ptr b"
          using a by (auto simp: s1 ar split: if_splits)
        then show ?thesis using pb by auto
      next
        case False
        then show ?thesis using a uniq by (simp add: s1)
      qed
    qed
    show ?thesis
      using tr u1 unfolding tracks_def keep fr de by simp
  qed
qed


lemma wf_ref_counted:
  assumes wfs: "well_formed s" and hp: "handles s h = Some \<lparr>ctrl = Some c, is_weak = w\<rparr>"
    and blk: "blocks s c = Some b"
  shows "(if w then gc_weak_count b else gc_strong_count b) \<noteq> 0"
proof -
  have "h \<in> refs s c w"
    using hp by (simp add: refs_member)
  then have "card (refs s c w) \<noteq> 0"
    using wf_finite_refs [OF wfs, of c w] by auto
  moreover have "unat (if w then gc_weak_count b else gc_strong_count b) = card (refs s c w)"
    using wf_block_ok [OF wfs, of c] by (simp add: block_ok_Some [OF blk])
  ultimately show ?thesis
    by (metis unat_0)
qed

lemma release_inv:
  assumes wfs: "well_formed s" and hp: "handles s h = Some p"
  shows "\<exists>s1. release h s = Inr s1 \<and> handles s1 = handles s
           \<and> well_formed (s1\<lparr>handles := (handles s)(h := None)\<rparr>)
           \<and> (tracks d f c0 v0 s \<longrightarrow> tracks d f c0 v0 s1)"
proof (cases "ctrl p")
  case None
  have "release h s = Inr s"
    using hp None by (simp add: release_def)
  moreover have "well_formed (s\<lparr>handles := (handles s)(h := None)\<rparr>)"
    by (rule wf_nullish_upd [OF wfs, where h = h and x = None]) (use hp None in simp_all)
  ultimately show ?thesis
    by auto
next
  case (Some c)
  define w where "w = is_weak p"
  have p: "p = \<lparr>ctrl = Some c, is_weak = w\<rparr>"
    using Some by (cases p) (simp add: w_def)
  have hp': "handles s h = Some \<lparr>ctrl = Some c, is_weak = w\<rparr>"
    using hp p by simp
  obtain b where blk: "blocks s c = Some b"
    using wf_pointee [OF wfs hp Some] by blast
  have ok: "object_destroyed b = (gc_strong_count b = 0)" "(ptr b = None) = object_destroyed b"
    using wf_block_ok [OF wfs, of c] by (simp_all add: block_ok_Some [OF blk])
  have nz: "(if w then gc_weak_count b else gc_strong_count b) \<noteq> 0"
    by (rule wf_ref_counted [OF wfs hp' blk])
  have "\<exists>s1. release h s = Inr s1 \<and> handles s1 = handles s
          \<and> blocks s1 = (blocks s)(c := after_release w b)
          \<and> destroyed s1 = (if \<not> w \<and> gc_strong_count b = 1 then destroyed s @ [the (ptr b)]
                             else destroyed s)
          \<and> freed s1 = (if after_release w b = None then freed s @ [c] else freed s)"
  proof (cases w)
    case True
    then have "gc_weak_count b \<noteq> 0" using nz by simp
    from release_weak_effect [OF blk this ok]
    show ?thesis
      using hp' True by (auto simp: release_def)
  next
    case False
    then have sz: "gc_strong_count b \<noteq> 0" using nz by simp
    then obtain v where v: "ptr b = Some v" "\<not> object_destroyed b"
      using ok by auto
    from release_strong_effect [OF blk sz v(2) v(1)]
    show ?thesis
      using hp' False v(1) by (auto simp: release_def)
  qed
  then obtain s1 where s1: "release h s = Inr s1" "handles s1 = handles s"
    "blocks s1 = (blocks s)(c := after_release w b)"
    "destroyed s1 = (if \<not> w \<and> gc_strong_count b = 1 then destroyed s @ [the (ptr b)]
                             else destroyed s)"
    "freed s1 = (if after_release w b = None then freed s @ [c] else freed s)"
    by blast
  have "well_formed (s1\<lparr>handles := (handles s)(h := None)\<rparr>)"
    by (rule wf_drop_ref [OF wfs hp' blk]) (simp_all add: s1)
  moreover have "tracks d f c0 v0 s1" if tr: "tracks d f c0 v0 s"
  proof -
    have "\<not> w \<Longrightarrow> gc_strong_count b \<noteq> 0"
      using nz by simp
    then show ?thesis
      by (rule tracks_drop_ref [OF blk ok _ tr s1(3,4,5)])
  qed
  ultimately show ?thesis
    using s1(1,2) by auto
qed

lemma tracks_handles_upd:
  "tracks d f c0 v0 s \<Longrightarrow> tracks d f c0 v0 (s\<lparr>handles := g\<rparr>)"
  by (rule tracks_frame [where s = s]) simp_all

lemma Ptr_dtor_inv:
  assumes wfs: "well_formed s" and hp: "handles s h = Some p"
  shows "\<exists>s'. Ptr_dtor h s = Inr s' \<and> handles s' = (handles s)(h := None) \<and> well_formed s'
           \<and> (tracks d f c0 v0 s \<longrightarrow> tracks d f c0 v0 s')"
proof -
  obtain s1 where s1: "release h s = Inr s1" "handles s1 = handles s"
    "well_formed (s1\<lparr>handles := (handles s)(h := None)\<rparr>)"
    "tracks d f c0 v0 s \<longrightarrow> tracks d f c0 v0 s1"
    using release_inv [OF wfs hp] by blast
  let ?s' = "s1\<lparr>handles := (handles s)(h := None)\<rparr>"
  have "Ptr_dtor h s = Inr ?s'"
    using s1(1,2) by (simp add: Ptr_dtor_def and_then_def)
  moreover have "tracks d f c0 v0 s \<longrightarrow> tracks d f c0 v0 ?s'"
    using s1(4) tracks_handles_upd by blast
  ultimately show ?thesis
    using s1(3) by auto
qed

lemma Ptr_copy_inv:
  assumes wfs: "well_formed s" and va: "valid_addr h" and fresh: "handles s h = None"
    and hq: "handles s other = Some q"
  shows "\<exists>s'. Ptr_copy h other s = Inr s' \<and> handles s' = (handles s)(h \<mapsto> q) \<and> well_formed s'
           \<and> (tracks d f c0 v0 s \<longrightarrow> tracks d f c0 v0 s')"
proof (cases "ctrl q")
  case None
  let ?s' = "set_handle h \<lparr>ctrl = None, is_weak = is_weak q\<rparr> s"
  have q: "q = \<lparr>ctrl = None, is_weak = is_weak q\<rparr>"
    using None by (cases q) simp
  have "Ptr_copy h other s = Inr ?s'"
    using hq None by (simp add: Ptr_copy_def and_then_def)
  moreover have hs: "handles ?s' = (handles s)(h \<mapsto> q)"
    by (subst (2) q) (simp add: set_handle_def)
  moreover have "well_formed ?s'"
    by (rule wf_nullish_upd [OF wfs, where h = h and x = "Some q"])
       (use fresh None va hs in \<open>simp_all add: set_handle_def\<close>)
  moreover have "tracks d f c0 v0 s \<Longrightarrow> tracks d f c0 v0 ?s'"
    by (rule tracks_frame [where s = s]) (simp_all add: set_handle_def)
  ultimately show ?thesis
    by auto
next
  case (Some c)
  define w where "w = is_weak q"
  have q: "q = \<lparr>ctrl = Some c, is_weak = w\<rparr>"
    using Some by (cases q) (simp add: w_def)
  have hq': "handles s other = Some \<lparr>ctrl = Some c, is_weak = w\<rparr>"
    using hq q by simp
  obtain b where blk: "blocks s c = Some b"
    using wf_pointee [OF wfs hq Some] by blast
  have nz: "(if w then gc_weak_count b else gc_strong_count b) \<noteq> 0"
    by (rule wf_ref_counted [OF wfs hq' blk])
  define b' where "b' = (if w then b\<lparr>gc_weak_count := gc_weak_count b + 1\<rparr>
                   else b\<lparr>gc_strong_count := gc_strong_count b + 1\<rparr>)"
  let ?s' = "set_handle h \<lparr>ctrl = Some c, is_weak = w\<rparr> (set_block c b' s)"
  have "Ptr_copy h other s = Inr ?s'"
    using hq' blk
    by (simp add: Ptr_copy_def and_then_def add_weak_def add_strong_def b'_def)
  moreover have "handles ?s' = (handles s)(h \<mapsto> q)"
    using q by (simp add: set_handle_def set_block_def)
  moreover have "well_formed ?s'"
    by (rule wf_add_ref [OF wfs fresh va blk _ b'_def]) (use nz in simp)
  moreover have "tracks d f c0 v0 s \<Longrightarrow> tracks d f c0 v0 ?s'"
    by (rule tracks_frame [where s = s])
       (use blk in \<open>auto simp: set_handle_def set_block_def b'_def\<close>)
  ultimately show ?thesis
    by auto
qed


lemma wf_move:
  assumes wfs: "well_formed s" and va: "valid_addr h" and fresh: "handles s h = None"
    and hq: "handles s other = Some q"
    and s': "handles s' = (handles s)(other \<mapsto> \<lparr>ctrl = None, is_weak = False\<rparr>, h \<mapsto> q)"
      "blocks s' = blocks s"
  shows "well_formed s'"
proof -
  have ne: "h \<noteq> other"
    using fresh hq by auto
  have vo: "valid_addr other"
    using wf_handles_valid [OF wfs] hq by auto
  define t where
    "t = s\<lparr>handles := (\<lambda>x. handles s (if x = h then other else if x = other then h else x))\<rparr>"
  have ht: "handles t = (\<lambda>x. handles s (if x = h then other else if x = other then h else x))"
    and bt: "blocks t = blocks s"
    by (simp_all add: t_def)
  have wt: "well_formed t"
    by (rule wf_transpose [OF wfs va vo ht bt])
  have old: "handles t other = None"
    using ne fresh by (simp add: ht)
  have upd: "handles s' = (handles t)(other := Some \<lparr>ctrl = None, is_weak = False\<rparr>)"
  proof (rule ext)
    fix x
    show "handles s' x = ((handles t)(other := Some \<lparr>ctrl = None, is_weak = False\<rparr>)) x"
      using ne hq by (cases "x = h"; cases "x = other") (simp_all add: s'(1) ht)
  qed
  show ?thesis
  proof (rule wf_nullish_upd [OF wt _ _ upd])
    show "ctrl p = None" if "handles t other = Some p" for p
      using that old by simp
    show "ctrl p = None \<and> valid_addr other"
      if "Some \<lparr>ctrl = None, is_weak = False\<rparr> = Some p" for p
      using that vo by auto
    show "blocks s' = blocks t"
      by (simp add: s'(2) bt)
  qed
qed

lemma Ptr_move_inv:
  assumes wfs: "well_formed s" and va: "valid_addr h" and fresh: "handles s h = None"
    and hq: "handles s other = Some q"
  shows "\<exists>s'. Ptr_move h other s = Inr s' \<and> well_formed s'
           \<and> (tracks d f c0 v0 s \<longrightarrow> tracks d f c0 v0 s')"
proof -
  let ?s' = "s\<lparr>handles := (handles s)(other \<mapsto> \<lparr>ctrl = None, is_weak = False\<rparr>, h \<mapsto> q)\<rparr>"
  have q: "\<lparr>ctrl = ctrl q, is_weak = is_weak q\<rparr> = q"
    by (cases q) simp
  have "Ptr_move h other s = Inr ?s'"
    using hq by (simp add: Ptr_move_def set_handle_def q)
  moreover have "well_formed ?s'"
    by (rule wf_move [OF wfs va fresh hq]) simp_all
  moreover have "tracks d f c0 v0 s \<longrightarrow> tracks d f c0 v0 ?s'"
    by (simp add: tracks_handles_upd)
  ultimately show ?thesis
    by (intro exI conjI)
qed

lemma swap_inv:
  assumes wfs: "well_formed s" and hp: "handles s h = Some p" and hq: "handles s other = Some q"
  shows "\<exists>s'. swap h other s = Inr s' \<and> handles s' = (handles s)(h \<mapsto> q, other \<mapsto> p)
           \<and> well_formed s' \<and> (tracks d f c0 v0 s \<longrightarrow> tracks d f c0 v0 s')"
proof -
  let ?s' = "s\<lparr>handles := (handles s)(h \<mapsto> q, other \<mapsto> p)\<rparr>"
  have pq: "x\<lparr>ctrl := ctrl y, is_weak := is_weak y\<rparr> = y" for x y :: Ptr
    by (cases x, cases y) simp
  have "swap h other s = Inr ?s'"
  proof (cases "h = other")
    case True
    then have "p = q" using hp hq by simp
    then show ?thesis
      using True hp by (simp add: swap_def upd_handle_def Let_def fun_upd_idem)
  next
    case False
    then show ?thesis
      using hp hq by (simp add: swap_def upd_handle_def Let_def pq)
  qed
  moreover have "well_formed ?s'"
  proof (rule wf_transpose [OF wfs])
    show "valid_addr h" "valid_addr other"
      using wf_handles_valid [OF wfs] hp hq by auto
    show "handles ?s' = (\<lambda>x. handles s (if x = h then other else if x = other then h else x))"
      using hp hq by (auto simp: fun_eq_iff)
  qed simp
  moreover have "tracks d f c0 v0 s \<longrightarrow> tracks d f c0 v0 ?s'"
    by (simp add: tracks_handles_upd)
  moreover have "handles ?s' = (handles s)(h \<mapsto> q, other \<mapsto> p)"
    by simp
  ultimately show ?thesis
    by (intro exI conjI)
qed


lemma reset_inv:
  assumes wfs: "well_formed s" and hp: "handles s h = Some p"
  shows "\<exists>s'. reset h s = Inr s' \<and> well_formed s' \<and> (tracks d f c0 v0 s \<longrightarrow> tracks d f c0 v0 s')"
proof -
  obtain s1 where s1: "release h s = Inr s1" "handles s1 = handles s"
    "well_formed (s1\<lparr>handles := (handles s)(h := None)\<rparr>)"
    "tracks d f c0 v0 s \<longrightarrow> tracks d f c0 v0 s1"
    using release_inv [OF wfs hp] by blast
  let ?s' = "s1\<lparr>handles := (handles s)(h \<mapsto> \<lparr>ctrl = None, is_weak = False\<rparr>)\<rparr>"
  have p: "p\<lparr>ctrl := None, is_weak := False\<rparr> = \<lparr>ctrl = None, is_weak = False\<rparr>"
    by (cases p) simp
  have "reset h s = Inr ?s'"
    using s1(1,2) hp by (simp add: reset_def and_then_def upd_handle_def p)
  moreover have "well_formed ?s'"
  proof (rule wf_nullish_upd [OF s1(3), where h = h
        and x = "Some \<lparr>ctrl = None, is_weak = False\<rparr>"])
    show "ctrl p' = None \<and> valid_addr h"
      if "Some \<lparr>ctrl = None, is_weak = False\<rparr> = Some p'" for p'
      using that wf_handles_valid [OF wfs] hp by auto
  qed simp_all
  moreover have "tracks d f c0 v0 s \<longrightarrow> tracks d f c0 v0 ?s'"
    using s1(4) by (simp add: tracks_handles_upd)
  ultimately show ?thesis
    by (intro exI conjI)
qed

lemma move_assign_inv:
  assumes wfs: "well_formed s" and hp: "handles s h = Some p" and hq: "handles s other = Some q"
  shows "\<exists>s'. move_assign h other s = Inr s' \<and> well_formed s'
           \<and> (tracks d f c0 v0 s \<longrightarrow> tracks d f c0 v0 s')"
proof (cases "h = other")
  case True
  then show ?thesis
    using wfs by (simp add: move_assign_def)
next
  case False
  obtain s1 where s1: "release h s = Inr s1" "handles s1 = handles s"
    "well_formed (s1\<lparr>handles := (handles s)(h := None)\<rparr>)"
    "tracks d f c0 v0 s \<longrightarrow> tracks d f c0 v0 s1"
    using release_inv [OF wfs hp] by blast
  let ?d = "s1\<lparr>handles := (handles s)(h := None)\<rparr>"
  let ?s' = "s1\<lparr>handles := (handles s)(other \<mapsto> \<lparr>ctrl = None, is_weak = False\<rparr>, h \<mapsto> q)\<rparr>"
  have pq: "x\<lparr>ctrl := ctrl y, is_weak := is_weak y\<rparr> = y" for x y :: Ptr
    by (cases x, cases y) simp
  have q: "q\<lparr>ctrl := None, is_weak := False\<rparr> = \<lparr>ctrl = None, is_weak = False\<rparr>"
    by (cases q) simp
  have "move_assign h other s = Inr ?s'"
    using False s1(1,2) hp hq
    by (simp add: move_assign_def and_then_def upd_handle_def Let_def pq q)
  moreover have "well_formed ?s'"
  proof (rule wf_move [where s = ?d and h = h and other = other and q = q])
    show "well_formed ?d" by (rule s1(3))
    show "valid_addr h"
      using wf_handles_valid [OF wfs] hp by auto
    show "handles ?d other = Some q"
      using False hq by simp
    show "handles ?s' =
        (handles ?d)(other \<mapsto> \<lparr>ctrl = None, is_weak = False\<rparr>, h \<mapsto> q)"
      by (rule ext) simp
  qed simp_all
  moreover have "tracks d f c0 v0 s \<longrightarrow> tracks d f c0 v0 ?s'"
    using s1(4) by (simp add: tracks_handles_upd)
  ultimately show ?thesis
    by (intro exI conjI)
qed

lemma copy_assign_inv:
  assumes wfs: "well_formed s" and va: "valid_addr t" and fresh: "handles s t = None"
    and hp: "handles s h = Some p" and hq: "handles s other = Some q"
  shows "\<exists>s'. copy_assign t h other s = Inr s' \<and> well_formed s'
           \<and> (tracks d f c0 v0 s \<longrightarrow> tracks d f c0 v0 s')"
proof (cases "h = other")
  case True
  then show ?thesis
    using wfs by (simp add: copy_assign_def)
next
  case False
  have ne: "t \<noteq> h"
    using fresh hp by auto
  obtain s1 where s1: "Ptr_copy t other s = Inr s1" "handles s1 = (handles s)(t \<mapsto> q)"
    "well_formed s1" "tracks d f c0 v0 s \<longrightarrow> tracks d f c0 v0 s1"
    using Ptr_copy_inv [OF wfs va fresh hq] by blast
  have h1: "handles s1 h = Some p" "handles s1 t = Some q"
    using ne hp by (simp_all add: s1(2))
  obtain s2 where s2: "swap h t s1 = Inr s2" "handles s2 = (handles s1)(h \<mapsto> q, t \<mapsto> p)"
    "well_formed s2" "tracks d f c0 v0 s1 \<longrightarrow> tracks d f c0 v0 s2"
    using swap_inv [OF s1(3) h1] by blast
  have h2: "handles s2 t = Some p"
    by (simp add: s2(2))
  obtain s3 where s3: "Ptr_dtor t s2 = Inr s3" "well_formed s3"
    "tracks d f c0 v0 s2 \<longrightarrow> tracks d f c0 v0 s3"
    using Ptr_dtor_inv [OF s2(3) h2] by blast
  have "copy_assign t h other s = Inr s3"
    using False s1(1) s2(1) s3(1) by (simp add: copy_assign_def and_then_def)
  then show ?thesis
    using s3(2,3) s2(4) s1(4) by blast
qed

lemma step_inv:
  assumes wfs: "well_formed s" and ap: "applicable x s"
  shows "\<exists>s'. step x s = Inr s' \<and> well_formed s' \<and> (tracks d f c0 v0 s \<longrightarrow> tracks d f c0 v0 s')"
proof (cases x)
  case (Copy h other)
  then obtain q where "valid_addr h" "handles s h = None" "handles s other = Some q"
    using ap by auto
  from Ptr_copy_inv [OF wfs this, where d = d and f = f and ?c0.0 = c0 and ?v0.0 = v0] show ?thesis
    using Copy by auto
next
  case (Move h other)
  then obtain q where "valid_addr h" "handles s h = None" "handles s other = Some q"
    using ap by auto
  from Ptr_move_inv [OF wfs this, where d = d and f = f and ?c0.0 = c0 and ?v0.0 = v0] show ?thesis
    using Move by auto
next
  case (CopyAssign t h other)
  then obtain p q where "valid_addr t" "handles s t = None" "handles s h = Some p"
    "handles s other = Some q"
    using ap by auto
  from copy_assign_inv [OF wfs this, where d = d and f = f and ?c0.0 = c0 and ?v0.0 = v0] show ?thesis
    using CopyAssign by auto
next
  case (MoveAssign h other)
  then obtain p q where "handles s h = Some p" "handles s other = Some q"
    using ap by auto
  from move_assign_inv [OF wfs this, where d = d and f = f and ?c0.0 = c0 and ?v0.0 = v0] show ?thesis
    using MoveAssign by auto
next
  case (Swap h other)
  then obtain p q where "handles s h = Some p" "handles s other = Some q"
    using ap by auto
  from swap_inv [OF wfs this, where d = d and f = f and ?c0.0 = c0 and ?v0.0 = v0] show ?thesis
    using Swap by auto
next
  case (Reset h)
  then obtain p where "handles s h = Some p"
    using ap by auto
  from reset_inv [OF wfs this, where d = d and f = f and ?c0.0 = c0 and ?v0.0 = v0] show ?thesis
    using Reset by auto
next
  case (Destroy h)
  then obtain p where "handles s h = Some p"
    using ap by auto
  from Ptr_dtor_inv [OF wfs this, where d = d and f = f and ?c0.0 = c0 and ?v0.0 = v0] show ?thesis
    using Destroy by auto
qed

lemma run_inv:
  "well_formed s \<Longrightarrow> all_applicable xs s \<Longrightarrow>
   \<exists>s'. run xs s = Inr s' \<and> well_formed s' \<and> (tracks d f c0 v0 s \<longrightarrow> tracks d f c0 v0 s')"
proof (induction xs arbitrary: s)
  case Nil
  then show ?case by simp
next
  case (Cons x xs)
  then have ap: "applicable x s" by simp
  obtain s1 where s1: "step x s = Inr s1" "well_formed s1"
    "tracks d f c0 v0 s \<longrightarrow> tracks d f c0 v0 s1"
    using step_inv [OF Cons.prems(1) ap] by blast
  then have "all_applicable xs s1"
    using Cons.prems(2) by simp
  from Cons.IH [OF s1(2) this] obtain s' where "run xs s1 = Inr s'" "well_formed s'"
    "tracks d f c0 v0 s1 \<longrightarrow> tracks d f c0 v0 s'"
    by blast
  then show ?case
    using s1 by (simp add: and_then_def)
qed

end
